theory Spec2Isabelle
  imports Main "HOL-Library.Word"
begin

unbundle bit_operations_syntax

section \<open>Stream FDW: the data the callbacks work on\<close>

text \<open>
  The embedding follows \<^verbatim>\<open>src/backend/pipeline/stream_fdw.c\<close>. PostgreSQL types that
  the file only uses (declared in headers that are not part of the sources at hand) are
  modelled by the fields the file reads and writes.
\<close>

type_synonym Oid = nat
type_synonym byte = "8 word"

datatype error =
    ElogError
  | AssertionFailure
  | MemoryFault
  | DivisionByZero

text \<open>
  A \<^verbatim>\<open>Datum\<close> holds a pass-by-value integer or points to a by-reference value; the model
  keeps the integer, or the text the pointer leads to. \<^verbatim>\<open>(Datum) 0\<close> is \<open>Int64Datum 0\<close>.
\<close>

datatype Datum = Int64Datum int | TextDatum string

definition TimestampGetDatum :: "int \<Rightarrow> Datum" where
  "TimestampGetDatum t = Int64Datum t"

record FormData_pg_attribute =
  attname :: string
  atttypid :: Oid
  attlen :: int
  atttypmod :: int
  attbyval :: bool
  attcollation :: Oid

text \<open>A \<^verbatim>\<open>TupleDesc\<close>: \<^verbatim>\<open>natts\<close> is the length of the list, \<^verbatim>\<open>attrs[i]\<close> its element \<open>i\<close>.\<close>

type_synonym TupleDesc = "FormData_pg_attribute list"

text \<open>A heap tuple is the list of its attribute values, \<open>None\<close> for SQL null.\<close>

type_synonym HeapTuple = "Datum option list"

text \<open>
  A pointer to a \<^verbatim>\<open>bytea\<close>: the payload after the four-byte length word, and the bytes
  that lie behind the payload in memory, as far as the enclosing allocation reaches.
  \<^verbatim>\<open>VARSIZE\<close> counts the length word, \<^verbatim>\<open>VARDATA\<close> is the memory from the payload on.
\<close>

record bytea =
  vl_dat :: "byte list"
  vl_behind :: "byte list"

definition VARHDRSZ :: nat where
  "VARHDRSZ = 4"

definition VARSIZE :: "bytea \<Rightarrow> nat" where
  "VARSIZE b = length (vl_dat b) + VARHDRSZ"

definition VARDATA :: "bytea \<Rightarrow> byte list" where
  "VARDATA b = vl_dat b @ vl_behind b"

text \<open>\<^verbatim>\<open>memcmp\<close> on two memory regions; reading past either region is a fault.\<close>

fun memcmp_bytes :: "byte list \<Rightarrow> byte list \<Rightarrow> int" where
  "memcmp_bytes (a # as) (b # bs) =
     (if a = b then memcmp_bytes as bs else int (unat a) - int (unat b))"
| "memcmp_bytes _ _ = 0"

definition memcmp :: "byte list \<Rightarrow> byte list \<Rightarrow> nat \<Rightarrow> error + int" where
  "memcmp s1 s2 n =
     (if n \<le> length s1 \<and> n \<le> length s2
      then Inr (memcmp_bytes (take n s1) (take n s2))
      else Inl MemoryFault)"

record RecordTupleDesc =
  rtd_typmod :: int
  rtd_desc :: bytea

record StreamTupleState =
  sts_desc :: bytea
  sts_tup :: HeapTuple
  sts_arrival_time :: int
  sts_record_descs :: "RecordTupleDesc list"

record TupleTableSlot =
  tts_tupleDescriptor :: TupleDesc
  tts_tuple :: "HeapTuple option"

text \<open>
  \<^verbatim>\<open>StreamProjectionInfo\<close>. \<^verbatim>\<open>BeginStreamScan\<close> allocates it with \<^verbatim>\<open>palloc\<close> and sets
  only some fields, and \<^verbatim>\<open>EndStreamScan\<close> resets the context the cached fields live in:
  a cached field that is not set, or freed, is \<open>None\<close>. The memory context and the
  expression context are handles with no content of their own here.
\<close>

record StreamProjectionInfo =
  eventdesc :: "TupleDesc option"
  resultdesc :: TupleDesc
  curslot :: "TupleTableSlot option"
  attrmap :: "int list option"
  raweventdesc :: "bytea option"

record StreamScanState =
  pi :: StreamProjectionInfo
  ntuples :: int
  nbytes :: int

section \<open>Name comparison\<close>

text \<open>
  Modelled from the spec: \<^verbatim>\<open>pg_strcasecmp\<close> (in \<^verbatim>\<open>src/port\<close>, not among the sources at
  hand) compares two names case-insensitively. As there, only \<^verbatim>\<open>A\<close> to \<^verbatim>\<open>Z\<close> are
  folded and the result is the difference of the first two bytes that differ after folding,
  the end of a name counting as byte 0.
\<close>

definition pg_tolower :: "char \<Rightarrow> nat" where
  "pg_tolower c =
     (let ch = (of_char c :: nat) in if 65 \<le> ch \<and> ch \<le> 90 then ch + 32 else ch)"

fun pg_strcasecmp :: "string \<Rightarrow> string \<Rightarrow> int" where
  "pg_strcasecmp [] [] = 0"
| "pg_strcasecmp [] (c2 # s2) = 0 - int (pg_tolower c2)"
| "pg_strcasecmp (c1 # s1) [] = int (pg_tolower c1)"
| "pg_strcasecmp (c1 # s1) (c2 # s2) =
     (if c1 \<noteq> c2 \<and> pg_tolower c1 \<noteq> pg_tolower c2
      then int (pg_tolower c1) - int (pg_tolower c2)
      else pg_strcasecmp s1 s2)"

text \<open>
  Modelled from the spec: the reserved arrival-time column name, the macro
  \<^verbatim>\<open>ARRIVAL_TIMESTAMP\<close> of \<^verbatim>\<open>pipeline/stream.h\<close>.
\<close>

definition ARRIVAL_TIMESTAMP :: string where
  "ARRIVAL_TIMESTAMP = ''arrival_timestamp''"

section \<open>The field map\<close>

text \<open>
  The inner loop of \<^verbatim>\<open>map_field_positions\<close>: \<open>j\<close> is the position of the head of the
  remaining destination attributes; the result stays \<open>-1\<close> when the loop runs out.
\<close>

fun map_field_scan :: "string \<Rightarrow> FormData_pg_attribute list \<Rightarrow> int \<Rightarrow> int" where
  "map_field_scan nm [] j = - 1"
| "map_field_scan nm (a # as) j =
     (if pg_strcasecmp nm (attname a) = 0 then j else map_field_scan nm as (j + 1))"

definition map_field_positions :: "TupleDesc \<Rightarrow> TupleDesc \<Rightarrow> int list" where
  "map_field_positions evdesc desc =
     map (\<lambda>evatt. map_field_scan (attname evatt) desc 0) evdesc"

section \<open>The type system and the executor, as the projector calls them\<close>

datatype CoercionContext = COERCION_IMPLICIT | COERCION_ASSIGNMENT | COERCION_EXPLICIT

datatype CoercionForm = COERCE_EXPLICIT_CALL | COERCE_EXPLICIT_CAST | COERCE_IMPLICIT_CAST

record Const =
  consttype :: Oid
  consttypmod :: int
  constcollid :: Oid
  constlen :: int
  constvalue :: Datum
  constisnull :: bool
  constbyval :: bool

definition makeConst :: "Oid \<Rightarrow> int \<Rightarrow> Oid \<Rightarrow> int \<Rightarrow> Datum \<Rightarrow> bool \<Rightarrow> bool \<Rightarrow> Const" where
  "makeConst typ typmod coll len v isnull byval =
     \<lparr>consttype = typ, consttypmod = typmod, constcollid = coll, constlen = len,
      constvalue = v, constisnull = isnull, constbyval = byval\<rparr>"

text \<open>
  The functions of the backend that \<^verbatim>\<open>stream_fdw.c\<close> calls and does not define are
  parameters of the model. \<open>'n\<close> is the type of expression nodes;
  \<open>coerce_to_target_type\<close> answers \<open>None\<close> for \<^verbatim>\<open>NULL\<close>; \<open>ExecEvalExpr\<close> stands for
  \<^verbatim>\<open>ExecInitExpr\<close> followed by \<^verbatim>\<open>ExecEvalExpr\<close> and yields the value and its null flag;
  a function that can \<^verbatim>\<open>ereport(ERROR)\<close> answers \<open>Inl\<close>. \<open>UnpackTupleDesc\<close> reads the
  payload of a packed descriptor.
\<close>

record 'n backend =
  UnpackTupleDesc :: "byte list \<Rightarrow> TupleDesc"
  coerce_to_target_type ::
    "Const \<Rightarrow> Oid \<Rightarrow> Oid \<Rightarrow> int \<Rightarrow> CoercionContext \<Rightarrow> CoercionForm \<Rightarrow> 'n option"
  ExecEvalExpr :: "'n \<Rightarrow> error + (Datum \<times> bool)"
  getTypeOutputInfo :: "Oid \<Rightarrow> error + (Oid \<times> bool)"
  OidOutputFunctionCall :: "Oid \<Rightarrow> Datum \<Rightarrow> error + string"
  getTypeInputInfo :: "Oid \<Rightarrow> error + (Oid \<times> Oid)"
  OidInputFunctionCall :: "Oid \<Rightarrow> string \<Rightarrow> Oid \<Rightarrow> int \<Rightarrow> error + Datum"

definition ExecStoreTuple :: "HeapTuple \<Rightarrow> TupleTableSlot \<Rightarrow> TupleTableSlot" where
  "ExecStoreTuple tuple slot = slot\<lparr>tts_tuple := Some tuple\<rparr>"

text \<open>
  Modelled from the spec: \<^verbatim>\<open>slot_getattr\<close> of the executor, which yields the value of
  attribute \<open>attnum\<close> (counted from 1) of the tuple in the slot and whether it is null.
  An attribute number beyond the slot's descriptor and an empty slot are errors; an
  attribute the stored tuple is too short for is null.
\<close>

definition slot_getattr :: "TupleTableSlot \<Rightarrow> nat \<Rightarrow> error + (Datum \<times> bool)" where
  "slot_getattr slot attnum =
     (if attnum = 0 \<or> attnum > length (tts_tupleDescriptor slot) then Inl ElogError
      else case tts_tuple slot of
        None \<Rightarrow> Inl ElogError
      | Some tuple \<Rightarrow>
          if attnum > length tuple then Inr (Int64Datum 0, True)
          else (case tuple ! (attnum - 1) of
                  None \<Rightarrow> Inr (Int64Datum 0, True)
                | Some v \<Rightarrow> Inr (v, False)))"

text \<open>
  Modelled from the spec: \<^verbatim>\<open>heap_form_tuple\<close>, which builds the row from the value and
  null arrays; the value of a null field does not reach the row.
\<close>

definition heap_form_tuple :: "TupleDesc \<Rightarrow> Datum list \<Rightarrow> bool list \<Rightarrow> HeapTuple" where
  "heap_form_tuple desc vals nulls =
     map (\<lambda>i. if nulls ! i then None else Some (vals ! i)) [0..<length desc]"

text \<open>
  Modelled from the spec: the process-wide record-type cache keyed by type modifier
  (\<^verbatim>\<open>set_record_type_typemod\<close>, \<^verbatim>\<open>reset_record_type_cache\<close>).
\<close>

type_synonym record_type_cache = "int \<rightharpoonup> TupleDesc"

definition set_record_type_typemod ::
  "int \<Rightarrow> TupleDesc \<Rightarrow> record_type_cache \<Rightarrow> record_type_cache" where
  "set_record_type_typemod typmod desc cache = cache(typmod \<mapsto> desc)"

definition reset_record_type_cache :: "record_type_cache \<Rightarrow> record_type_cache" where
  "reset_record_type_cache cache = Map.empty"

section \<open>Projection\<close>

text \<open>
  \<^verbatim>\<open>init_proj_info\<close>. The \<^verbatim>\<open>memcpy\<close> reads \<^verbatim>\<open>VARSIZE(sts->desc) + VARHDRSZ\<close> bytes from
  the start of the descriptor: the length word, the payload and \<^verbatim>\<open>VARHDRSZ\<close> bytes
  behind it, which the copy keeps.
\<close>

fun load_record_descs ::
  "'n backend \<Rightarrow> RecordTupleDesc list \<Rightarrow> record_type_cache \<Rightarrow> record_type_cache" where
  "load_record_descs B [] cache = cache"
| "load_record_descs B (rdesc # rest) cache =
     load_record_descs B rest
       (set_record_type_typemod (rtd_typmod rdesc)
          (UnpackTupleDesc B (vl_dat (rtd_desc rdesc))) cache)"

definition init_proj_info ::
  "'n backend \<Rightarrow> StreamProjectionInfo \<Rightarrow> StreamTupleState \<Rightarrow> record_type_cache
     \<Rightarrow> error + (StreamProjectionInfo \<times> record_type_cache)" where
  "init_proj_info B pinfo sts cache =
     (let evdesc = UnpackTupleDesc B (vl_dat (sts_desc sts));
          amap = map_field_positions evdesc (resultdesc pinfo);
          slot = \<lparr>tts_tupleDescriptor = evdesc, tts_tuple = None\<rparr>
      in if length (VARDATA (sts_desc sts)) + VARHDRSZ < VARSIZE (sts_desc sts) + VARHDRSZ
         then Inl MemoryFault
         else
           let raw = \<lparr>vl_dat = vl_dat (sts_desc sts),
                      vl_behind = take VARHDRSZ (vl_behind (sts_desc sts))\<rparr>
           in Inr (pinfo\<lparr>eventdesc := Some evdesc, attrmap := Some amap,
                         curslot := Some slot, raweventdesc := Some raw\<rparr>,
                   load_record_descs B (sts_record_descs sts) cache))"

definition coerce_raw_input :: "'n backend \<Rightarrow> Datum \<Rightarrow> Oid \<Rightarrow> Oid \<Rightarrow> error + Datum" where
  "coerce_raw_input B v intype outtype =
     (case getTypeOutputInfo B intype of
        Inl e \<Rightarrow> Inl e
      | Inr (outfn, isvlen) \<Rightarrow>
          (case OidOutputFunctionCall B outfn v of
             Inl e \<Rightarrow> Inl e
           | Inr orig \<Rightarrow>
               (case getTypeInputInfo B outtype of
                  Inl e \<Rightarrow> Inl e
                | Inr (infn, ioparam) \<Rightarrow> OidInputFunctionCall B infn orig ioparam (- 1))))"

text \<open>
  The body of the first loop of \<^verbatim>\<open>exec_stream_project\<close> for event attribute \<open>i\<close>, on
  the \<^verbatim>\<open>values\<close> and \<^verbatim>\<open>nulls\<close> arrays. Reading \<^verbatim>\<open>attrmap[i]\<close> or writing
  \<^verbatim>\<open>nulls[outatt]\<close> outside the array is a fault.
\<close>

definition project_field ::
  "'n backend \<Rightarrow> TupleDesc \<Rightarrow> TupleDesc \<Rightarrow> int list \<Rightarrow> TupleTableSlot \<Rightarrow> nat
     \<Rightarrow> Datum list \<times> bool list \<Rightarrow> error + (Datum list \<times> bool list)" where
  "project_field B evdesc desc amap slot i st =
     (if length amap \<le> i then Inl MemoryFault
      else
        let outatt = amap ! i in
        if outatt < 0 then Inr st
        else
          (case slot_getattr slot (i + 1) of
             Inl e \<Rightarrow> Inl e
           | Inr (v, isnull) \<Rightarrow>
               if isnull then Inr st
               else if length desc \<le> nat outatt then Inl MemoryFault
               else
                 let evatt = evdesc ! i;
                     vals = fst st;
                     nulls = (snd st)[nat outatt := False]
                 in
                   if atttypid evatt \<noteq> atttypid (desc ! nat outatt) then
                     (let c = makeConst (atttypid evatt) (atttypmod evatt) (attcollation evatt)
                                (attlen evatt) v False (attbyval evatt)
                      in case coerce_to_target_type B c (atttypid evatt)
                                (atttypid (desc ! nat outatt)) (atttypmod (desc ! nat outatt))
                                COERCION_ASSIGNMENT COERCE_IMPLICIT_CAST of
                           Some n \<Rightarrow>
                             (case ExecEvalExpr B n of
                                Inl e \<Rightarrow> Inl e
                              | Inr (v', isnull') \<Rightarrow>
                                  Inr (vals[nat outatt := v'], nulls[nat outatt := isnull']))
                         | None \<Rightarrow>
                             (case coerce_raw_input B v (atttypid evatt)
                                     (atttypid (desc ! nat outatt)) of
                                Inl e \<Rightarrow> Inl e
                              | Inr v' \<Rightarrow> Inr (vals[nat outatt := v'], nulls)))
                   else Inr (vals[nat outatt := v], nulls)))"

text \<open>The first loop, over the event attributes \<open>is\<close> in turn.\<close>

fun project_fields ::
  "'n backend \<Rightarrow> TupleDesc \<Rightarrow> TupleDesc \<Rightarrow> int list \<Rightarrow> TupleTableSlot \<Rightarrow> nat list
     \<Rightarrow> Datum list \<times> bool list \<Rightarrow> error + (Datum list \<times> bool list)" where
  "project_fields B evdesc desc amap slot [] st = Inr st"
| "project_fields B evdesc desc amap slot (i # is) st =
     (case project_field B evdesc desc amap slot i st of
        Inl e \<Rightarrow> Inl e
      | Inr st' \<Rightarrow> project_fields B evdesc desc amap slot is st')"

text \<open>
  The second loop: the first result attribute named \<^verbatim>\<open>ARRIVAL_TIMESTAMP\<close> gets the
  arrival time, and the loop ends there. \<open>i\<close> is the position of the head of the
  remaining attributes.
\<close>

fun project_arrival_time ::
  "FormData_pg_attribute list \<Rightarrow> nat \<Rightarrow> int \<Rightarrow> Datum list \<times> bool list
     \<Rightarrow> Datum list \<times> bool list" where
  "project_arrival_time [] i t st = st"
| "project_arrival_time (a # as) i t st =
     (if pg_strcasecmp (attname a) ARRIVAL_TIMESTAMP = 0
      then ((fst st)[i := TimestampGetDatum t], (snd st)[i := False])
      else project_arrival_time as (i + 1) t st)"

text \<open>
  \<^verbatim>\<open>exec_stream_project\<close> returns the decoded tuple; the slot of the projection info
  now holds the event's tuple. The cached fields must be set.
\<close>

definition exec_stream_project ::
  "'n backend \<Rightarrow> StreamTupleState \<Rightarrow> StreamScanState \<Rightarrow> error + (HeapTuple \<times> StreamScanState)" where
  "exec_stream_project B sts node =
     (case (eventdesc (pi node), attrmap (pi node), curslot (pi node)) of
        (Some evdesc, Some amap, Some slot0) \<Rightarrow>
          (let desc = resultdesc (pi node);
               vals = replicate (length desc) (Int64Datum 0);
               nulls = replicate (length desc) True;
               slot = ExecStoreTuple (sts_tup sts) slot0
           in case project_fields B evdesc desc amap slot [0..<length evdesc] (vals, nulls) of
                Inl e \<Rightarrow> Inl e
              | Inr st \<Rightarrow>
                  (let st' = project_arrival_time desc 0 (sts_arrival_time sts) st
                   in Inr (heap_form_tuple desc (fst st') (snd st'),
                           node\<lparr>pi := (pi node)\<lparr>curslot := Some slot\<rparr>\<rparr>)))
      | _ \<Rightarrow> Inl MemoryFault)"

section \<open>The scan callbacks\<close>

text \<open>
  The scan node: \<^verbatim>\<open>plan->fdw_private\<close> holds the column names and the physical target
  list, each entry of which stands here as the attribute \<^verbatim>\<open>ExecTypeFromTL\<close> makes of it.
\<close>

record ForeignScanState =
  fdw_private :: "string list \<times> TupleDesc"
  ss_ScanTupleSlot :: TupleTableSlot
  fdw_state :: "StreamScanState option"

definition ExecTypeFromTL :: "TupleDesc \<Rightarrow> TupleDesc" where
  "ExecTypeFromTL tlist = tlist"

text \<open>
  Modelled from the spec: \<^verbatim>\<open>namestrcpy\<close> stores a name in a \<^verbatim>\<open>NameData\<close> of
  \<^verbatim>\<open>NAMEDATALEN\<close> bytes, which keeps \<^verbatim>\<open>NAMEDATALEN - 1\<close> bytes of it.
\<close>

definition NAMEDATALEN :: nat where
  "NAMEDATALEN = 64"

definition namestrcpy :: "string \<Rightarrow> string" where
  "namestrcpy str = take (NAMEDATALEN - 1) str"

text \<open>
  The \<^verbatim>\<open>foreach\<close> of \<^verbatim>\<open>BeginStreamScan\<close>: column name number \<open>i\<close> goes to
  \<^verbatim>\<open>attrs[i]\<close>; an \<open>i\<close> beyond the descriptor is a fault.
\<close>

fun name_result_attrs :: "string list \<Rightarrow> nat \<Rightarrow> TupleDesc \<Rightarrow> error + TupleDesc" where
  "name_result_attrs [] i desc = Inr desc"
| "name_result_attrs (v # vs) i desc =
     (if length desc \<le> i then Inl MemoryFault
      else name_result_attrs vs (i + 1) (desc[i := (desc ! i)\<lparr>attname := namestrcpy v\<rparr>]))"

text \<open>
  \<^verbatim>\<open>BeginStreamScan\<close>. \<open>assert_checking\<close> says whether the build has
  \<^verbatim>\<open>USE_ASSERT_CHECKING\<close>, without which \<^verbatim>\<open>Assert\<close> expands to nothing.
\<close>

definition BeginStreamScan :: "bool \<Rightarrow> ForeignScanState \<Rightarrow> int \<Rightarrow> error + ForeignScanState" where
  "BeginStreamScan assert_checking node eflags =
     (let colnames = fst (fdw_private node);
          physical_tlist = snd (fdw_private node);
          rdesc = ExecTypeFromTL physical_tlist
      in if assert_checking \<and> length rdesc \<noteq> length colnames then Inl AssertionFailure
         else
           (case name_result_attrs colnames 0 rdesc of
              Inl e \<Rightarrow> Inl e
            | Inr rdesc' \<Rightarrow>
                Inr (node\<lparr>ss_ScanTupleSlot := \<lparr>tts_tupleDescriptor = rdesc', tts_tuple = None\<rparr>,
                          fdw_state :=
                            Some \<lparr>pi = \<lparr>eventdesc = None, resultdesc = rdesc', curslot = None,
                                        attrmap = None, raweventdesc = None\<rparr>,
                                  ntuples = 0, nbytes = 0\<rparr>\<rparr>)))"

text \<open>\<^verbatim>\<open>ReScanStreamScan\<close> has an empty body: the node and the global cache stay.\<close>

definition ReScanStreamScan ::
  "ForeignScanState \<Rightarrow> record_type_cache \<Rightarrow> ForeignScanState \<times> record_type_cache" where
  "ReScanStreamScan node cache = (node, cache)"

text \<open>
  \<^verbatim>\<open>EndStreamScan\<close>: the reset of the context frees what \<^verbatim>\<open>init_proj_info\<close> put there;
  the third component is what goes to \<^verbatim>\<open>pgstat_increment_cq_read\<close>.
\<close>

definition EndStreamScan ::
  "ForeignScanState \<Rightarrow> record_type_cache
     \<Rightarrow> error + (ForeignScanState \<times> record_type_cache \<times> (int \<times> int))" where
  "EndStreamScan node cache =
     (case fdw_state node of
        None \<Rightarrow> Inl MemoryFault
      | Some ss \<Rightarrow>
          Inr (node\<lparr>fdw_state :=
                      Some (ss\<lparr>pi := (pi ss)\<lparr>eventdesc := None, curslot := None,
                                              attrmap := None, raweventdesc := None\<rparr>\<rparr>)\<rparr>,
               reset_record_type_cache cache, (ntuples ss, nbytes ss)))"

text \<open>
  The test of \<^verbatim>\<open>IterateStreamScan\<close> that decides whether \<^verbatim>\<open>init_proj_info\<close> runs:
  \<^verbatim>\<open>piraw == NULL || VARSIZE(piraw) != VARSIZE(tupraw) ||
  memcmp(VARDATA(piraw), VARDATA(tupraw), VARSIZE(piraw))\<close>.
\<close>

definition event_desc_differs :: "bytea option \<Rightarrow> bytea \<Rightarrow> error + bool" where
  "event_desc_differs piraw tupraw =
     (case piraw of
        None \<Rightarrow> Inr True
      | Some raw \<Rightarrow>
          if VARSIZE raw \<noteq> VARSIZE tupraw then Inr True
          else (case memcmp (VARDATA raw) (VARDATA tupraw) (VARSIZE raw) of
                  Inl e \<Rightarrow> Inl e
                | Inr c \<Rightarrow> Inr (c \<noteq> 0)))"

text \<open>
  \<^verbatim>\<open>IterateStreamScan\<close>. \<open>msg\<close> is what \<^verbatim>\<open>ContExecutorYieldNextMessage\<close> yields: \<open>None\<close>
  for \<^verbatim>\<open>NULL\<close>, else the event and its length. The counters are unbounded integers
  here (their C types are declared outside this file).
\<close>

definition IterateStreamScan ::
  "'n backend \<Rightarrow> ForeignScanState \<Rightarrow> (StreamTupleState \<times> int) option \<Rightarrow> record_type_cache
     \<Rightarrow> error + (TupleTableSlot option \<times> ForeignScanState \<times> record_type_cache)" where
  "IterateStreamScan B node msg cache =
     (case fdw_state node of
        None \<Rightarrow> Inl MemoryFault
      | Some state0 \<Rightarrow>
          (case msg of
             None \<Rightarrow> Inr (None, node, cache)
           | Some (sts, len) \<Rightarrow>
               (let state = state0\<lparr>ntuples := ntuples state0 + 1, nbytes := nbytes state0 + len\<rparr>
                in case event_desc_differs (raweventdesc (pi state)) (sts_desc sts) of
                     Inl e \<Rightarrow> Inl e
                   | Inr differs \<Rightarrow>
                       (case (if differs then init_proj_info B (pi state) sts cache
                              else Inr (pi state, cache)) of
                          Inl e \<Rightarrow> Inl e
                        | Inr (pinfo, cache') \<Rightarrow>
                            (case exec_stream_project B sts (state\<lparr>pi := pinfo\<rparr>) of
                               Inl e \<Rightarrow> Inl e
                             | Inr (tup, state') \<Rightarrow>
                                 (let slot = ExecStoreTuple tup (ss_ScanTupleSlot node)
                                  in Inr (Some slot,
                                          node\<lparr>ss_ScanTupleSlot := slot, fdw_state := Some state'\<rparr>,
                                          cache')))))))"

section \<open>The insert callbacks\<close>

type_synonym ipc_queue = nat
type_synonym InsertBatch = nat
type_synonym Bitmapset = "nat set"

record InsertBatchAck =
  ack_batch_id :: nat
  ack_batch :: InsertBatch

record StreamInsertState =
  sis_targets :: Bitmapset
  sis_count :: int
  sis_bytes :: int
  sis_num_batches :: int
  sis_batch :: "InsertBatch option"
  sis_ack :: "InsertBatchAck option"
  sis_desc :: TupleDesc
  sis_packed_desc :: bytea
  sis_worker_queue :: "ipc_queue option"
  sis_flags :: "32 word"

text \<open>The stream relation, as far as \<^verbatim>\<open>BeginStreamModify\<close> looks at it.\<close>

record Relation =
  rd_id :: Oid
  rd_att :: TupleDesc
  rd_inferred :: bool

text \<open>
  The settings and the process identity the callbacks read, and the value of the flag
  \<^verbatim>\<open>REENTRANT_STREAM_INSERT\<close>, all declared outside this file.
\<close>

record globals =
  synchronous_stream_insert :: bool
  continuous_query_num_workers :: int
  continuous_query_batch_size :: int
  IsContQueryCombinerProcess :: bool
  MyContQueryProc_group_id :: int
  USE_ASSERT_CHECKING :: bool
  REENTRANT_STREAM_INSERT :: "32 word"

text \<open>C's \<^verbatim>\<open>%\<close> on \<^verbatim>\<open>int\<close>, for a divisor that is not 0: the sign follows the dividend.\<close>

definition c_rem :: "int \<Rightarrow> int \<Rightarrow> int" where
  "c_rem a b = sgn a * (\<bar>a\<bar> mod \<bar>b\<bar>)"

text \<open>
  What the callbacks do to the world outside is a sequence of calls, kept in order with
  their arguments and results. \<open>'m\<close> is the type of serialized stream tuples.
\<close>

datatype 'm ipc_call =
    GET_LOCAL_STREAM_READERS Oid Bitmapset
  | INSERT_BATCH_CREATE InsertBatch
  | GET_WORKER_QUEUE_WITH_LOCK int bool ipc_queue
  | GET_ANY_WORKER_QUEUE_WITH_LOCK ipc_queue
  | STREAM_TUPLE_STATE_CREATE HeapTuple int 'm int
  | IPC_QUEUE_PUSH_NOLOCK ipc_queue 'm int bool bool
  | IPC_QUEUE_UNLOCK ipc_queue
  | INSERT_BATCH_WAIT_AND_REMOVE "InsertBatch option" int
  | PGSTAT_INCREMENT_STREAM_INSERT Oid int int int

text \<open>
  Modelled from the spec: the collaborators of the insert path, none of which is defined in
  this file (reader membership lookup, batch registry, worker queues, tuple and descriptor
  serialization). Each answers as a function of the calls made so far, so that any
  behaviour of the other processes is some such world. A queue handle that is handed out
  is never \<^verbatim>\<open>NULL\<close>. A push without the wait flag may fail (queue full); with the flag
  it blocks until space is available and then succeeds.
\<close>

record 'm world =
  local_stream_readers :: "'m ipc_call list \<Rightarrow> Oid \<Rightarrow> Bitmapset"
  created_batch :: "'m ipc_call list \<Rightarrow> InsertBatch"
  worker_queue_of :: "'m ipc_call list \<Rightarrow> int \<Rightarrow> bool \<Rightarrow> ipc_queue"
  any_worker_queue :: "'m ipc_call list \<Rightarrow> ipc_queue"
  tuple_state :: "HeapTuple \<Rightarrow> TupleDesc \<Rightarrow> bytea \<Rightarrow> Bitmapset \<Rightarrow> InsertBatchAck option
                    \<Rightarrow> int \<Rightarrow> 'm \<times> int"
  queue_has_space :: "'m ipc_call list \<Rightarrow> ipc_queue \<Rightarrow> 'm \<Rightarrow> int \<Rightarrow> bool"
  PackTupleDesc :: "TupleDesc \<Rightarrow> bytea"

definition GetLocalStreamReaders ::
  "'m world \<Rightarrow> Oid \<Rightarrow> 'm ipc_call list \<Rightarrow> Bitmapset \<times> 'm ipc_call list" where
  "GetLocalStreamReaders W streamid h =
     (let targets = local_stream_readers W h streamid
      in (targets, h @ [GET_LOCAL_STREAM_READERS streamid targets]))"

definition InsertBatchCreate :: "'m world \<Rightarrow> 'm ipc_call list \<Rightarrow> InsertBatch \<times> 'm ipc_call list" where
  "InsertBatchCreate W h = (let b = created_batch W h in (b, h @ [INSERT_BATCH_CREATE b]))"

definition get_worker_queue_with_lock ::
  "'m world \<Rightarrow> int \<Rightarrow> bool \<Rightarrow> 'm ipc_call list \<Rightarrow> ipc_queue \<times> 'm ipc_call list" where
  "get_worker_queue_with_lock W idx nowait h =
     (let q = worker_queue_of W h idx nowait
      in (q, h @ [GET_WORKER_QUEUE_WITH_LOCK idx nowait q]))"

definition get_any_worker_queue_with_lock ::
  "'m world \<Rightarrow> 'm ipc_call list \<Rightarrow> ipc_queue \<times> 'm ipc_call list" where
  "get_any_worker_queue_with_lock W h =
     (let q = any_worker_queue W h in (q, h @ [GET_ANY_WORKER_QUEUE_WITH_LOCK q]))"

definition StreamTupleStateCreate ::
  "'m world \<Rightarrow> HeapTuple \<Rightarrow> TupleDesc \<Rightarrow> bytea \<Rightarrow> Bitmapset \<Rightarrow> InsertBatchAck option \<Rightarrow> int
     \<Rightarrow> 'm ipc_call list \<Rightarrow> ('m \<times> int) \<times> 'm ipc_call list" where
  "StreamTupleStateCreate W tup desc packed_desc targets acks nacks h =
     (let r = tuple_state W tup desc packed_desc targets acks nacks
      in (r, h @ [STREAM_TUPLE_STATE_CREATE tup nacks (fst r) (snd r)]))"

definition ipc_queue_push_nolock ::
  "'m world \<Rightarrow> ipc_queue \<Rightarrow> 'm \<Rightarrow> int \<Rightarrow> bool \<Rightarrow> 'm ipc_call list \<Rightarrow> bool \<times> 'm ipc_call list" where
  "ipc_queue_push_nolock W q sts len wait h =
     (let ok = (wait \<or> queue_has_space W h q sts len)
      in (ok, h @ [IPC_QUEUE_PUSH_NOLOCK q sts len wait ok]))"

definition ipc_queue_unlock :: "ipc_queue \<Rightarrow> 'm ipc_call list \<Rightarrow> 'm ipc_call list" where
  "ipc_queue_unlock q h = h @ [IPC_QUEUE_UNLOCK q]"

definition InsertBatchWaitAndRemove ::
  "InsertBatch option \<Rightarrow> int \<Rightarrow> 'm ipc_call list \<Rightarrow> 'm ipc_call list" where
  "InsertBatchWaitAndRemove batch n h = h @ [INSERT_BATCH_WAIT_AND_REMOVE batch n]"

definition pgstat_increment_stream_insert ::
  "Oid \<Rightarrow> int \<Rightarrow> int \<Rightarrow> int \<Rightarrow> 'm ipc_call list \<Rightarrow> 'm ipc_call list" where
  "pgstat_increment_stream_insert relid n nbatches nb h =
     h @ [PGSTAT_INCREMENT_STREAM_INSERT relid n nbatches nb]"

text \<open>
  \<^verbatim>\<open>BeginStreamModify\<close>. \<open>fdw_priv\<close> is \<open>None\<close> for a \<^verbatim>\<open>NULL\<close> list, else it holds
  the insert target list; the empty list is \<^verbatim>\<open>NIL\<close>, which \<^verbatim>\<open>Assert(insert_tl)\<close>
  rejects. The worker index of a combiner divides by the number of workers.
\<close>

definition BeginStreamModify ::
  "globals \<Rightarrow> 'm world \<Rightarrow> Relation \<Rightarrow> TupleDesc option \<Rightarrow> 32 word \<Rightarrow> 'm ipc_call list
     \<Rightarrow> error + (StreamInsertState \<times> 'm ipc_call list)" where
  "BeginStreamModify G W stream fdw_priv eflags h0 =
     (let streamid = rd_id stream;
          (targets, h1) = GetLocalStreamReaders W streamid h0;
          insert_tl = (case fdw_priv of None \<Rightarrow> [] | Some tlist \<Rightarrow> tlist);
          (batch, ack, h2) =
            (if targets \<noteq> {} \<and> synchronous_stream_insert G
             then (let (b, h) = InsertBatchCreate W h1
                   in (Some b, Some \<lparr>ack_batch_id = b, ack_batch = b\<rparr>, h))
             else (None, None, h1))
      in if targets \<noteq> {} \<and> IsContQueryCombinerProcess G \<and> continuous_query_num_workers G = 0
         then Inl DivisionByZero
         else
           (let (wq, h3) =
                  (if targets \<noteq> {} then
                     (if IsContQueryCombinerProcess G then
                        (let idx = c_rem (MyContQueryProc_group_id G)
                                     (continuous_query_num_workers G);
                             (q, h) = get_worker_queue_with_lock W idx False h2
                         in (Some q, h))
                      else (let (q, h) = get_any_worker_queue_with_lock W h2 in (Some q, h)))
                   else (None, h2))
            in if rd_inferred stream \<and> USE_ASSERT_CHECKING G \<and> insert_tl = []
               then Inl AssertionFailure
               else
                 (let desc = (if rd_inferred stream then ExecTypeFromTL insert_tl
                              else rd_att stream)
                  in Inr (\<lparr>sis_targets = targets, sis_count = 0, sis_bytes = 0,
                            sis_num_batches = 1, sis_batch = batch, sis_ack = ack,
                            sis_desc = desc, sis_packed_desc = PackTupleDesc W desc,
                            sis_worker_queue = wq, sis_flags = eflags\<rparr>, h3))))"

text \<open>
  The \<^verbatim>\<open>do ... while\<close> of \<^verbatim>\<open>ExecStreamInsert\<close>, entered after a failed push with
  \<open>ntries = 0\<close>: it need not end, so the result is \<open>None\<close> when it does not.
\<close>

partial_function (option) push_retry ::
  "'m world \<Rightarrow> int \<Rightarrow> 'm \<Rightarrow> int \<Rightarrow> int \<Rightarrow> ipc_queue \<Rightarrow> 'm ipc_call list
     \<Rightarrow> (ipc_queue \<times> 'm ipc_call list) option" where
  "push_retry W num_workers sts len ntries q h =
     (let ntries' = ntries + 1;
          h1 = ipc_queue_unlock q h;
          q' = fst (get_any_worker_queue_with_lock W h1);
          h2 = snd (get_any_worker_queue_with_lock W h1);
          ok = fst (ipc_queue_push_nolock W q' sts len (ntries' = num_workers) h2);
          h3 = snd (ipc_queue_push_nolock W q' sts len (ntries' = num_workers) h2)
      in if ok then Some (q', h3) else push_retry W num_workers sts len ntries' q' h3)"

text \<open>
  \<^verbatim>\<open>ExecStreamInsert\<close> for the materialized tuple of the slot. The outer \<open>None\<close> is a
  call that does not return. The batch test divides by the batch size.
\<close>

definition ExecStreamInsert ::
  "globals \<Rightarrow> 'm world \<Rightarrow> StreamInsertState \<Rightarrow> HeapTuple \<Rightarrow> 'm ipc_call list
     \<Rightarrow> (error + (StreamInsertState \<times> 'm ipc_call list)) option" where
  "ExecStreamInsert G W sis tup h0 =
     (let ((sts, len), h1) =
            StreamTupleStateCreate W tup (sis_desc sis) (sis_packed_desc sis) (sis_targets sis)
              (sis_ack sis) (if sis_ack sis \<noteq> None then 1 else 0) h0
      in case sis_worker_queue sis of
           None \<Rightarrow>
             Some (Inr (sis\<lparr>sis_count := sis_count sis + 1, sis_bytes := sis_bytes sis + len\<rparr>, h1))
         | Some q0 \<Rightarrow>
             if sis_count sis \<noteq> 0 \<and> continuous_query_batch_size G = 0
             then Some (Inl DivisionByZero)
             else
               (let (sis1, q1, h2) =
                      (if sis_count sis \<noteq> 0 \<and>
                          c_rem (sis_count sis) (continuous_query_batch_size G) = 0
                       then (let (q, h) = get_any_worker_queue_with_lock W (ipc_queue_unlock q0 h1)
                             in (sis\<lparr>sis_worker_queue := Some q,
                                     sis_num_batches := sis_num_batches sis + 1\<rparr>, q, h))
                       else (sis, q0, h1));
                    (ok, h3) = ipc_queue_push_nolock W q1 sts len False h2
                in if ok
                   then Some (Inr (sis1\<lparr>sis_count := sis_count sis1 + 1,
                                        sis_bytes := sis_bytes sis1 + len\<rparr>, h3))
                   else
                     (case push_retry W (continuous_query_num_workers G) sts len 0 q1 h3 of
                        None \<Rightarrow> None
                      | Some (q2, h4) \<Rightarrow>
                          Some (Inr (sis1\<lparr>sis_num_batches := sis_num_batches sis1 + 1,
                                          sis_worker_queue := Some q2,
                                          sis_count := sis_count sis1 + 1,
                                          sis_bytes := sis_bytes sis1 + len\<rparr>, h4)))))"

definition EndStreamModify ::
  "globals \<Rightarrow> Relation \<Rightarrow> StreamInsertState \<Rightarrow> 'm ipc_call list \<Rightarrow> 'm ipc_call list" where
  "EndStreamModify G stream sis h0 =
     (let h1 = pgstat_increment_stream_insert (rd_id stream) (sis_count sis)
                 (sis_num_batches sis) (sis_bytes sis) h0
      in case sis_worker_queue sis of
           None \<Rightarrow> h1
         | Some q \<Rightarrow>
             (let h2 = ipc_queue_unlock q h1
              in if sis_flags sis AND REENTRANT_STREAM_INSERT G = 0 \<and> synchronous_stream_insert G
                 then InsertBatchWaitAndRemove (sis_batch sis) (sis_count sis) h2
                 else h2))"

text \<open>
  One insert operation, as the executor's modify node drives the callbacks: open, one
  \<^verbatim>\<open>ExecStreamInsert\<close> for each row, close.
\<close>

fun insert_rows ::
  "globals \<Rightarrow> 'm world \<Rightarrow> StreamInsertState \<Rightarrow> HeapTuple list \<Rightarrow> 'm ipc_call list
     \<Rightarrow> (error + (StreamInsertState \<times> 'm ipc_call list)) option" where
  "insert_rows G W sis [] h = Some (Inr (sis, h))"
| "insert_rows G W sis (tup # tups) h =
     (case ExecStreamInsert G W sis tup h of
        None \<Rightarrow> None
      | Some (Inl e) \<Rightarrow> Some (Inl e)
      | Some (Inr (sis', h')) \<Rightarrow> insert_rows G W sis' tups h')"

definition insert_operation ::
  "globals \<Rightarrow> 'm world \<Rightarrow> Relation \<Rightarrow> TupleDesc option \<Rightarrow> 32 word \<Rightarrow> HeapTuple list
     \<Rightarrow> 'm ipc_call list \<Rightarrow> (error + (StreamInsertState \<times> 'm ipc_call list)) option" where
  "insert_operation G W stream fdw_priv eflags tups h0 =
     (case BeginStreamModify G W stream fdw_priv eflags h0 of
        Inl e \<Rightarrow> Some (Inl e)
      | Inr (sis, h1) \<Rightarrow>
          (case insert_rows G W sis tups h1 of
             None \<Rightarrow> None
           | Some (Inl e) \<Rightarrow> Some (Inl e)
           | Some (Inr (sis', h2)) \<Rightarrow> Some (Inr (sis', EndStreamModify G stream sis' h2))))"

section \<open>Notions the properties are stated with\<close>

text \<open>
  The arrival-time attribute of a result descriptor: the first one whose name is
  \<^verbatim>\<open>ARRIVAL_TIMESTAMP\<close> up to case.
\<close>

definition is_arrival_att :: "TupleDesc \<Rightarrow> nat \<Rightarrow> bool" where
  "is_arrival_att desc j \<longleftrightarrow>
     j < length desc \<and> pg_strcasecmp (attname (desc ! j)) ARRIVAL_TIMESTAMP = 0 \<and>
     (\<forall>k<j. pg_strcasecmp (attname (desc ! k)) ARRIVAL_TIMESTAMP \<noteq> 0)"

text \<open>The value of attribute \<open>i\<close> of an event tuple, \<open>None\<close> when null or beyond the tuple.\<close>

definition source_value :: "HeapTuple \<Rightarrow> nat \<Rightarrow> Datum option" where
  "source_value tuple i = (if i < length tuple then tuple ! i else None)"

text \<open>Kinds of calls in a history.\<close>

fun is_batch_call :: "'m ipc_call \<Rightarrow> bool" where
  "is_batch_call (INSERT_BATCH_CREATE b) = True"
| "is_batch_call (INSERT_BATCH_WAIT_AND_REMOVE b n) = True"
| "is_batch_call _ = False"

fun is_push_call :: "'m ipc_call \<Rightarrow> bool" where
  "is_push_call (IPC_QUEUE_PUSH_NOLOCK q m len wait ok) = True"
| "is_push_call _ = False"

fun is_wait_call :: "'m ipc_call \<Rightarrow> bool" where
  "is_wait_call (INSERT_BATCH_WAIT_AND_REMOVE b n) = True"
| "is_wait_call _ = False"

text \<open>
  The shape of the calls made after a failed push, in the spec's words: release the
  queue, select one, push again; the push of round \<open>n + 1\<close> carries the must-not-fail
  flag exactly when \<open>n + 1\<close> is the number of workers, and the rounds end with the first
  push that succeeds.
\<close>

fun retry_trace :: "int \<Rightarrow> int \<Rightarrow> ipc_queue \<Rightarrow> 'm \<Rightarrow> int \<Rightarrow> 'm ipc_call list \<Rightarrow> bool" where
  "retry_trace K n q m len
     (IPC_QUEUE_UNLOCK q0 # GET_ANY_WORKER_QUEUE_WITH_LOCK q1 #
      IPC_QUEUE_PUSH_NOLOCK q2 m' len' wait ok # rest) =
     (q0 = q \<and> q2 = q1 \<and> m' = m \<and> len' = len \<and> (wait \<longleftrightarrow> n + 1 = K) \<and>
      (if ok then rest = [] else retry_trace K (n + 1) q1 m len rest))"
| "retry_trace K n q m len _ = False"

text \<open>The three calls of one round of \<open>push_retry\<close> from history \<open>h\<close>.\<close>

definition retry_round :: "'m world \<Rightarrow> int \<Rightarrow> 'm \<Rightarrow> int \<Rightarrow> int \<Rightarrow> ipc_queue \<Rightarrow> 'm ipc_call list \<Rightarrow> 'm ipc_call list" where
  "retry_round W K sts len n q h =
     (let q' = any_worker_queue W (h @ [IPC_QUEUE_UNLOCK q])
      in [IPC_QUEUE_UNLOCK q, GET_ANY_WORKER_QUEUE_WITH_LOCK q',
          IPC_QUEUE_PUSH_NOLOCK q' sts len (n + 1 = K)
            (n + 1 = K \<or>
             queue_has_space W (h @ [IPC_QUEUE_UNLOCK q, GET_ANY_WORKER_QUEUE_WITH_LOCK q']) q' sts len)])"

text \<open>What \<^verbatim>\<open>StreamTupleStateCreate\<close> yields for a row under an insert state, and its call.\<close>

definition row_state :: "'m world \<Rightarrow> StreamInsertState \<Rightarrow> HeapTuple \<Rightarrow> 'm \<times> int" where
  "row_state W sis tup =
     tuple_state W tup (sis_desc sis) (sis_packed_desc sis) (sis_targets sis) (sis_ack sis)
       (if sis_ack sis \<noteq> None then 1 else 0)"

definition row_call :: "'m world \<Rightarrow> StreamInsertState \<Rightarrow> HeapTuple \<Rightarrow> 'm ipc_call" where
  "row_call W sis tup =
     STREAM_TUPLE_STATE_CREATE tup (if sis_ack sis \<noteq> None then 1 else 0)
       (fst (row_state W sis tup)) (snd (row_state W sis tup))"

section \<open>A small backend and world to run the model on\<close>

text \<open>
  Decimal output of a number; a packed descriptor of two bytes per attribute (the
  number of a name in a table of four, and a type); a type system that casts type 23 to
  type 20 and otherwise has only text output and, for type 25, text input.
\<close>

fun show_nat :: "nat \<Rightarrow> string" where
  "show_nat n =
     (if n < 10 then [''0123456789'' ! n]
      else show_nat (n div 10) @ [''0123456789'' ! (n mod 10)])"

declare show_nat.simps [simp del]

fun demo_unpack :: "byte list \<Rightarrow> TupleDesc" where
  "demo_unpack (nm # ty # rest) =
     \<lparr>attname = (if unat nm < 4 then [''a'', ''B'', ''c'', ''ARRIVAL_TIMESTAMP''] ! unat nm
                 else ''?''),
      atttypid = unat ty, attlen = - 1, atttypmod = - 1,
      attbyval = False, attcollation = 0\<rparr> # demo_unpack rest"
| "demo_unpack _ = []"

definition demo_backend :: "Datum backend" where
  "demo_backend =
     \<lparr>UnpackTupleDesc = demo_unpack,
      coerce_to_target_type =
        (\<lambda>c src dst typmod cc cf. if src = 23 \<and> dst = 20 then Some (constvalue c) else None),
      ExecEvalExpr = (\<lambda>n. Inr (n, False)),
      getTypeOutputInfo = (\<lambda>t. Inr (t, False)),
      OidOutputFunctionCall =
        (\<lambda>fn v. case v of Int64Datum n \<Rightarrow> Inr (show_nat (nat n)) | TextDatum s \<Rightarrow> Inr s),
      getTypeInputInfo = (\<lambda>t. Inr (t, t)),
      OidInputFunctionCall =
        (\<lambda>fn s ioparam typmod. if fn = 25 then Inr (TextDatum s) else Inl ElogError)\<rparr>"

definition demo_att :: "string \<Rightarrow> Oid \<Rightarrow> FormData_pg_attribute" where
  "demo_att nm ty =
     \<lparr>attname = nm, atttypid = ty, attlen = - 1, atttypmod = - 1, attbyval = False,
      attcollation = 0\<rparr>"

definition demo_pinfo :: "TupleDesc \<Rightarrow> StreamProjectionInfo" where
  "demo_pinfo desc =
     \<lparr>eventdesc = None, resultdesc = desc, curslot = None, attrmap = None, raweventdesc = None\<rparr>"

definition demo_event :: "byte list \<Rightarrow> byte list \<Rightarrow> HeapTuple \<Rightarrow> StreamTupleState" where
  "demo_event packed behind tuple =
     \<lparr>sts_desc = \<lparr>vl_dat = packed, vl_behind = behind\<rparr>, sts_tup = tuple,
      sts_arrival_time = 1000, sts_record_descs = []\<rparr>"

definition demo_node :: "StreamProjectionInfo \<Rightarrow> StreamScanState" where
  "demo_node pinfo = \<lparr>pi = pinfo, ntuples = 0, nbytes = 0\<rparr>"

text \<open>A projection info with everything cached, and scan nodes before and after events.\<close>

definition demo_cached :: "TupleDesc \<Rightarrow> TupleDesc \<Rightarrow> int list \<Rightarrow> HeapTuple option \<Rightarrow> bytea
    \<Rightarrow> StreamProjectionInfo" where
  "demo_cached evdesc desc amap tuple raw =
     \<lparr>eventdesc = Some evdesc, resultdesc = desc,
      curslot = Some \<lparr>tts_tupleDescriptor = evdesc, tts_tuple = tuple\<rparr>,
      attrmap = Some amap, raweventdesc = Some raw\<rparr>"

definition demo_scan :: "TupleDesc \<Rightarrow> ForeignScanState" where
  "demo_scan desc =
     \<lparr>fdw_private = (map attname desc, desc),
      ss_ScanTupleSlot = \<lparr>tts_tupleDescriptor = desc, tts_tuple = None\<rparr>,
      fdw_state = Some (demo_node (demo_pinfo desc))\<rparr>"

definition demo_scanned ::
  "TupleDesc \<Rightarrow> TupleDesc \<Rightarrow> int list \<Rightarrow> HeapTuple \<Rightarrow> HeapTuple \<Rightarrow> bytea \<Rightarrow> int \<Rightarrow> int
     \<Rightarrow> ForeignScanState" where
  "demo_scanned evdesc desc amap tuple row raw n b =
     \<lparr>fdw_private = (map attname desc, desc),
      ss_ScanTupleSlot = \<lparr>tts_tupleDescriptor = desc, tts_tuple = Some row\<rparr>,
      fdw_state =
        Some \<lparr>pi = demo_cached evdesc desc amap (Some tuple) raw, ntuples = n, nbytes = b\<rparr>\<rparr>"

text \<open>
  Two events with the same packed descriptor; different bytes lie behind it in memory, and
  the second event carries a record descriptor.
\<close>

definition demo_event_a :: StreamTupleState where
  "demo_event_a = demo_event [0, 23] [0, 0, 0, 7] [Some (Int64Datum 1)]"

definition demo_event_b :: StreamTupleState where
  "demo_event_b =
     (demo_event [0, 23] [0, 0, 0, 9] [Some (Int64Datum 2)])
       \<lparr>sts_record_descs := [\<lparr>rtd_typmod = 5, rtd_desc = \<lparr>vl_dat = [2, 25], vl_behind = []\<rparr>\<rparr>]\<rparr>"

text \<open>A scan node as the planner hands it over, and as \<^verbatim>\<open>BeginStreamScan\<close> leaves it.\<close>

definition demo_plan :: "string list \<Rightarrow> TupleDesc \<Rightarrow> ForeignScanState" where
  "demo_plan colnames tlist =
     \<lparr>fdw_private = (colnames, tlist),
      ss_ScanTupleSlot = \<lparr>tts_tupleDescriptor = [], tts_tuple = None\<rparr>,
      fdw_state = None\<rparr>"

definition demo_begun :: "string list \<Rightarrow> TupleDesc \<Rightarrow> TupleDesc \<Rightarrow> ForeignScanState" where
  "demo_begun colnames tlist rdesc =
     \<lparr>fdw_private = (colnames, tlist),
      ss_ScanTupleSlot = \<lparr>tts_tupleDescriptor = rdesc, tts_tuple = None\<rparr>,
      fdw_state = Some \<lparr>pi = demo_pinfo rdesc, ntuples = 0, nbytes = 0\<rparr>\<rparr>"

text \<open>
  A world with the given set of full queues and the given readers, in which any worker
  queue is queue 1; two workers; a stream; an insert state.
\<close>

definition demo_world :: "(ipc_queue \<Rightarrow> bool) \<Rightarrow> Bitmapset \<Rightarrow> HeapTuple world" where
  "demo_world full readers =
     \<lparr>local_stream_readers = (\<lambda>h streamid. readers),
      created_batch = (\<lambda>h. length h),
      worker_queue_of = (\<lambda>h idx nowait. nat idx),
      any_worker_queue = (\<lambda>h. 1),
      tuple_state = (\<lambda>tup desc packed_desc targets acks nacks. (tup, int (length tup))),
      queue_has_space = (\<lambda>h q sts len. \<not> full q),
      PackTupleDesc = (\<lambda>desc. \<lparr>vl_dat = [], vl_behind = []\<rparr>)\<rparr>"

definition demo_globals :: "bool \<Rightarrow> bool \<Rightarrow> globals" where
  "demo_globals sync combiner =
     \<lparr>synchronous_stream_insert = sync, continuous_query_num_workers = 2,
      continuous_query_batch_size = 10000, IsContQueryCombinerProcess = combiner,
      MyContQueryProc_group_id = 4, USE_ASSERT_CHECKING = False,
      REENTRANT_STREAM_INSERT = 64\<rparr>"

definition demo_stream :: Relation where
  "demo_stream = \<lparr>rd_id = 1, rd_att = [demo_att ''a'' 23], rd_inferred = False\<rparr>"

definition demo_sis :: "Bitmapset \<Rightarrow> int \<Rightarrow> int \<Rightarrow> int \<Rightarrow> InsertBatch option \<Rightarrow> ipc_queue option
    \<Rightarrow> 32 word \<Rightarrow> StreamInsertState" where
  "demo_sis targets n b nbatches batch wq eflags =
     \<lparr>sis_targets = targets, sis_count = n, sis_bytes = b, sis_num_batches = nbatches,
      sis_batch = batch,
      sis_ack = (case batch of None \<Rightarrow> None | Some x \<Rightarrow> Some \<lparr>ack_batch_id = x, ack_batch = x\<rparr>),
      sis_desc = [demo_att ''a'' 23], sis_packed_desc = \<lparr>vl_dat = [], vl_behind = []\<rparr>,
      sis_worker_queue = wq, sis_flags = eflags\<rparr>"

text \<open>One worker, whose queue is full and is the only queue there is to hand out.\<close>

definition demo_world_single :: "HeapTuple world" where
  "demo_world_single =
     \<lparr>local_stream_readers = (\<lambda>h streamid. {7}),
      created_batch = (\<lambda>h. length h),
      worker_queue_of = (\<lambda>h idx nowait. 0),
      any_worker_queue = (\<lambda>h. 0),
      tuple_state = (\<lambda>tup desc packed_desc targets acks nacks. (tup, int (length tup))),
      queue_has_space = (\<lambda>h q sts len. False),
      PackTupleDesc = (\<lambda>desc. \<lparr>vl_dat = [], vl_behind = []\<rparr>)\<rparr>"

definition demo_globals_single :: globals where
  "demo_globals_single =
     \<lparr>synchronous_stream_insert = False, continuous_query_num_workers = 1,
      continuous_query_batch_size = 10000, IsContQueryCombinerProcess = False,
      MyContQueryProc_group_id = 0, USE_ASSERT_CHECKING = False,
      REENTRANT_STREAM_INSERT = 64\<rparr>"

section \<open>Properties\<close>

subsection \<open>The field map\<close>

text \<open>On names without a zero byte, the comparison is equality after folding.\<close>

lemma pg_strcasecmp_zero_iff:
  assumes "\<forall>c\<in>set s1. pg_tolower c \<noteq> 0" "\<forall>c\<in>set s2. pg_tolower c \<noteq> 0"
  shows "pg_strcasecmp s1 s2 = 0 \<longleftrightarrow> map pg_tolower s1 = map pg_tolower s2"
  using assms
proof (induction s1 s2 rule: pg_strcasecmp.induct)
  case 1
  then show ?case by simp
next
  case (2 c2 s2)
  then show ?case by simp
next
  case (3 c1 s1)
  then show ?case by simp
next
  case (4 c1 s1 c2 s2)
  show ?case
  proof (cases "c1 \<noteq> c2 \<and> pg_tolower c1 \<noteq> pg_tolower c2")
    case True
    then show ?thesis by simp
  next
    case False
    then have eq: "pg_tolower c1 = pg_tolower c2" by auto
    from "4.prems" have "\<forall>c\<in>set s1. pg_tolower c \<noteq> 0" "\<forall>c\<in>set s2. pg_tolower c \<noteq> 0"
      by simp_all
    from "4.IH" [OF False this] False eq show ?thesis by simp
  qed
qed

lemma map_field_scan_cases:
  "(map_field_scan nm d j = - 1 \<and> (\<forall>k<length d. pg_strcasecmp nm (attname (d ! k)) \<noteq> 0)) \<or>
   (\<exists>k<length d. map_field_scan nm d j = j + int k \<and>
       pg_strcasecmp nm (attname (d ! k)) = 0 \<and>
       (\<forall>k'<k. pg_strcasecmp nm (attname (d ! k')) \<noteq> 0))"
proof (induction d arbitrary: j)
  case Nil
  then show ?case by simp
next
  case (Cons a d)
  show ?case
  proof (cases "pg_strcasecmp nm (attname a) = 0")
    case True
    then have "map_field_scan nm (a # d) j = j + int 0 \<and>
       pg_strcasecmp nm (attname ((a # d) ! 0)) = 0 \<and>
       (\<forall>k'<0. pg_strcasecmp nm (attname ((a # d) ! k')) \<noteq> 0)" by simp
    then show ?thesis by blast
  next
    case False
    from Cons.IH [of "j + 1"] show ?thesis
    proof
      assume h: "map_field_scan nm d (j + 1) = - 1 \<and> (\<forall>k<length d. pg_strcasecmp nm (attname (d ! k)) \<noteq> 0)"
      have "\<forall>k<length (a # d). pg_strcasecmp nm (attname ((a # d) ! k)) \<noteq> 0"
        using h False by (auto simp: nth_Cons split: nat.splits)
      with h False show ?thesis by simp
    next
      assume "\<exists>k<length d. map_field_scan nm d (j + 1) = j + 1 + int k \<and>
          pg_strcasecmp nm (attname (d ! k)) = 0 \<and>
          (\<forall>k'<k. pg_strcasecmp nm (attname (d ! k')) \<noteq> 0)"
      then obtain k where k: "k < length d" "map_field_scan nm d (j + 1) = j + 1 + int k"
          "pg_strcasecmp nm (attname (d ! k)) = 0"
          "\<forall>k'<k. pg_strcasecmp nm (attname (d ! k')) \<noteq> 0" by blast
      have "\<forall>k'<Suc k. pg_strcasecmp nm (attname ((a # d) ! k')) \<noteq> 0"
        using k(4) False by (auto simp: nth_Cons split: nat.splits)
      with k False have "Suc k < length (a # d) \<and> map_field_scan nm (a # d) j = j + int (Suc k) \<and>
         pg_strcasecmp nm (attname ((a # d) ! Suc k)) = 0 \<and>
         (\<forall>k'<Suc k. pg_strcasecmp nm (attname ((a # d) ! k')) \<noteq> 0)" by simp
      then show ?thesis by blast
    qed
  qed
qed

subsection \<open>The loops of the projection\<close>

lemma slot_getattr_stored:
  "slot_getattr (ExecStoreTuple tuple slot0) (i + 1) = Inr (v, isnull) \<Longrightarrow>
     (isnull \<longleftrightarrow> source_value tuple i = None) \<and> (\<not> isnull \<longrightarrow> source_value tuple i = Some v)"
  by (auto simp: slot_getattr_def ExecStoreTuple_def source_value_def
      split: if_splits option.splits)

lemma project_field_length:
  "project_field B evdesc desc amap slot i st = Inr st' \<Longrightarrow>
     length (fst st') = length (fst st) \<and> length (snd st') = length (snd st)"
  by (auto simp: project_field_def Let_def split: if_splits sum.splits option.splits prod.splits)

lemma project_field_frame:
  assumes "project_field B evdesc desc amap (ExecStoreTuple tuple slot0) i st = Inr st'"
    and "amap ! i \<noteq> int j \<or> source_value tuple i = None"
  shows "fst st' ! j = fst st ! j \<and> snd st' ! j = snd st ! j"
  using assms slot_getattr_stored [of tuple slot0 i]
  by (auto simp: project_field_def Let_def split: if_splits sum.splits option.splits prod.splits)

lemma project_fields_length:
  "project_fields B evdesc desc amap slot is st = Inr st' \<Longrightarrow>
     length (fst st') = length (fst st) \<and> length (snd st') = length (snd st)"
proof (induction "is" arbitrary: st)
  case Nil
  then show ?case by simp
next
  case (Cons i "is")
  then show ?case
    by (auto split: sum.splits dest!: project_field_length)
qed

lemma project_fields_frame:
  assumes "project_fields B evdesc desc amap (ExecStoreTuple tuple slot0) is st = Inr st'"
    and "\<forall>i\<in>set is. amap ! i \<noteq> int j \<or> source_value tuple i = None"
  shows "fst st' ! j = fst st ! j \<and> snd st' ! j = snd st ! j"
  using assms
proof (induction "is" arbitrary: st)
  case Nil
  then show ?case by simp
next
  case (Cons i "is")
  from Cons.prems(1) obtain st1 where
    s1: "project_field B evdesc desc amap (ExecStoreTuple tuple slot0) i st = Inr st1" and
    s2: "project_fields B evdesc desc amap (ExecStoreTuple tuple slot0) is st1 = Inr st'"
    by (auto split: sum.splits)
  from Cons.prems(2) have "amap ! i \<noteq> int j \<or> source_value tuple i = None" by simp
  from project_field_frame [OF s1 this] have a: "fst st1 ! j = fst st ! j \<and> snd st1 ! j = snd st ! j" .
  from Cons.prems(2) have "\<forall>i\<in>set is. amap ! i \<noteq> int j \<or> source_value tuple i = None" by simp
  from Cons.IH [OF s2 this] a show ?case by simp
qed

lemma project_fields_append:
  "project_fields B evdesc desc amap slot (xs @ ys) st =
     (case project_fields B evdesc desc amap slot xs st of
        Inl e \<Rightarrow> Inl e
      | Inr st1 \<Rightarrow> project_fields B evdesc desc amap slot ys st1)"
  by (induction xs arbitrary: st) (auto split: sum.splits)

lemma project_arrival_time_length:
  "length (fst (project_arrival_time d i t st)) = length (fst st) \<and>
   length (snd (project_arrival_time d i t st)) = length (snd st)"
  by (induction d arbitrary: i) auto

lemma project_arrival_time_none:
  "\<forall>k<length d. pg_strcasecmp (attname (d ! k)) ARRIVAL_TIMESTAMP \<noteq> 0 \<Longrightarrow>
     project_arrival_time d i t st = st"
proof (induction d arbitrary: i)
  case Nil
  then show ?case by simp
next
  case (Cons a d)
  from Cons.prems have "pg_strcasecmp (attname a) ARRIVAL_TIMESTAMP \<noteq> 0" by auto
  moreover from Cons.prems have "\<forall>k<length d. pg_strcasecmp (attname (d ! k)) ARRIVAL_TIMESTAMP \<noteq> 0"
    by auto
  ultimately show ?case using Cons.IH by simp
qed

lemma project_arrival_time_first:
  assumes "m < length d" "pg_strcasecmp (attname (d ! m)) ARRIVAL_TIMESTAMP = 0"
    "\<forall>k<m. pg_strcasecmp (attname (d ! k)) ARRIVAL_TIMESTAMP \<noteq> 0"
  shows "project_arrival_time d i t st =
     ((fst st)[i + m := TimestampGetDatum t], (snd st)[i + m := False])"
  using assms
proof (induction d arbitrary: i m)
  case Nil
  then show ?case by simp
next
  case (Cons a d)
  show ?case
  proof (cases m)
    case 0
    with Cons.prems show ?thesis by simp
  next
    case (Suc m')
    from Cons.prems(3) Suc have na: "pg_strcasecmp (attname a) ARRIVAL_TIMESTAMP \<noteq> 0" by auto
    from Cons.prems Suc have 1: "m' < length d" "pg_strcasecmp (attname (d ! m')) ARRIVAL_TIMESTAMP = 0"
      by auto
    from Cons.prems(3) Suc have 2: "\<forall>k<m'. pg_strcasecmp (attname (d ! k)) ARRIVAL_TIMESTAMP \<noteq> 0"
      by auto
    from Cons.IH [OF 1 2, of "i + 1"] na Suc show ?thesis by simp
  qed
qed

lemma first_match_cases:
  "(\<forall>k<length (d::TupleDesc). pg_strcasecmp (attname (d ! k)) ARRIVAL_TIMESTAMP \<noteq> 0) \<or>
   (\<exists>m. is_arrival_att d m)"
proof (cases "\<exists>k<length d. pg_strcasecmp (attname (d ! k)) ARRIVAL_TIMESTAMP = 0")
  case False
  then show ?thesis by blast
next
  case True
  define m where "m = (LEAST k. k < length d \<and> pg_strcasecmp (attname (d ! k)) ARRIVAL_TIMESTAMP = 0)"
  from True have mm: "m < length d \<and> pg_strcasecmp (attname (d ! m)) ARRIVAL_TIMESTAMP = 0"
    unfolding m_def by (rule exE) (rule LeastI)
  have "\<forall>k<m. pg_strcasecmp (attname (d ! k)) ARRIVAL_TIMESTAMP \<noteq> 0"
  proof (intro allI impI)
    fix k assume km: "k < m"
    then have "\<not> (k < length d \<and> pg_strcasecmp (attname (d ! k)) ARRIVAL_TIMESTAMP = 0)"
      unfolding m_def by (rule not_less_Least)
    moreover from km mm have "k < length d" by simp
    ultimately show "pg_strcasecmp (attname (d ! k)) ARRIVAL_TIMESTAMP \<noteq> 0" by simp
  qed
  with mm have "is_arrival_att d m" by (simp add: is_arrival_att_def)
  then show ?thesis by blast
qed

lemma is_arrival_att_unique: "is_arrival_att d m \<Longrightarrow> is_arrival_att d j \<Longrightarrow> m = j"
  unfolding is_arrival_att_def by (metis linorder_neqE_nat)

lemma project_arrival_time_frame:
  assumes "\<not> is_arrival_att d j"
  shows "fst (project_arrival_time d 0 t st) ! j = fst st ! j \<and>
         snd (project_arrival_time d 0 t st) ! j = snd st ! j"
proof -
  from first_match_cases [of d] show ?thesis
  proof
    assume "\<forall>k<length d. pg_strcasecmp (attname (d ! k)) ARRIVAL_TIMESTAMP \<noteq> 0"
    then show ?thesis by (simp add: project_arrival_time_none)
  next
    assume "\<exists>m. is_arrival_att d m"
    then obtain m where m: "is_arrival_att d m" by blast
    with assms have "m \<noteq> j" by auto
    moreover from m have "project_arrival_time d 0 t st =
       ((fst st)[0 + m := TimestampGetDatum t], (snd st)[0 + m := False])"
      unfolding is_arrival_att_def by (intro project_arrival_time_first) auto
    ultimately show ?thesis by simp
  qed
qed

lemma heap_form_tuple_nth:
  "j < length desc \<Longrightarrow>
     heap_form_tuple desc vals nulls ! j = (if nulls ! j then None else Some (vals ! j))"
  by (simp add: heap_form_tuple_def)

lemma heap_form_tuple_length: "length (heap_form_tuple desc vals nulls) = length desc"
  by (simp add: heap_form_tuple_def)

lemma init_proj_info_fields:
  assumes "init_proj_info B pinfo sts cache = Inr (pinfo', cache')"
  shows "eventdesc pinfo' = Some (UnpackTupleDesc B (vl_dat (sts_desc sts)))"
    and "attrmap pinfo' = Some (map_field_positions (UnpackTupleDesc B (vl_dat (sts_desc sts))) (resultdesc pinfo))"
    and "curslot pinfo' = Some \<lparr>tts_tupleDescriptor = UnpackTupleDesc B (vl_dat (sts_desc sts)), tts_tuple = None\<rparr>"
    and "resultdesc pinfo' = resultdesc pinfo"
    and "raweventdesc pinfo' = Some \<lparr>vl_dat = vl_dat (sts_desc sts), vl_behind = take VARHDRSZ (vl_behind (sts_desc sts))\<rparr>"
  using assms by (auto simp: init_proj_info_def Let_def split: if_splits)

lemma exec_stream_projectE:
  assumes "exec_stream_project B sts node = Inr (row, node')"
  obtains evdesc amap slot0 st where
    "eventdesc (pi node) = Some evdesc" "attrmap (pi node) = Some amap"
    "curslot (pi node) = Some slot0"
    "project_fields B evdesc (resultdesc (pi node)) amap (ExecStoreTuple (sts_tup sts) slot0)
       [0..<length evdesc]
       (replicate (length (resultdesc (pi node))) (Int64Datum 0),
        replicate (length (resultdesc (pi node))) True) = Inr st"
    "row = heap_form_tuple (resultdesc (pi node))
       (fst (project_arrival_time (resultdesc (pi node)) 0 (sts_arrival_time sts) st))
       (snd (project_arrival_time (resultdesc (pi node)) 0 (sts_arrival_time sts) st))"
  using assms
  by (auto simp: exec_stream_project_def Let_def split: option.splits sum.splits)

lemma unassigned_field_null:
  assumes proj: "exec_stream_project B sts node = Inr (row, node')"
    and ev: "eventdesc (pi node) = Some evdesc" and am: "attrmap (pi node) = Some amap"
    and j: "j < length (resultdesc (pi node))"
    and un: "\<forall>i<length evdesc. amap ! i = int j \<longrightarrow> source_value (sts_tup sts) i = None"
    and na: "\<not> is_arrival_att (resultdesc (pi node)) j"
  shows "row ! j = None"
proof -
  from proj obtain evdesc' amap' slot0 st where
    e: "eventdesc (pi node) = Some evdesc'" "attrmap (pi node) = Some amap'" and
    pf: "project_fields B evdesc' (resultdesc (pi node)) amap' (ExecStoreTuple (sts_tup sts) slot0)
       [0..<length evdesc']
       (replicate (length (resultdesc (pi node))) (Int64Datum 0),
        replicate (length (resultdesc (pi node))) True) = Inr st" and
    row: "row = heap_form_tuple (resultdesc (pi node))
       (fst (project_arrival_time (resultdesc (pi node)) 0 (sts_arrival_time sts) st))
       (snd (project_arrival_time (resultdesc (pi node)) 0 (sts_arrival_time sts) st))"
    by (rule exec_stream_projectE)
  from e ev am have eq: "evdesc' = evdesc" "amap' = amap" by simp_all
  from un have "\<forall>i\<in>set [0..<length evdesc]. amap ! i \<noteq> int j \<or> source_value (sts_tup sts) i = None"
    by auto
  from project_fields_frame [OF pf [unfolded eq] this] j have "snd st ! j = True" by simp
  with project_arrival_time_frame [OF na, of "sts_arrival_time sts" st]
  have "snd (project_arrival_time (resultdesc (pi node)) 0 (sts_arrival_time sts) st) ! j" by simp
  with row j show ?thesis by (simp add: heap_form_tuple_nth)
qed

lemma row_length:
  assumes "exec_stream_project B sts node = Inr (row, node')"
  shows "length row = length (resultdesc (pi node))"
  using assms by (auto elim!: exec_stream_projectE simp: heap_form_tuple_length)

lemma coerce_raw_input_Inr:
  assumes "coerce_raw_input B v intype outtype = Inr v'"
  shows "\<exists>outfn isvlen orig infn ioparam.
     getTypeOutputInfo B intype = Inr (outfn, isvlen) \<and>
     OidOutputFunctionCall B outfn v = Inr orig \<and>
     getTypeInputInfo B outtype = Inr (infn, ioparam) \<and>
     OidInputFunctionCall B infn orig ioparam (- 1) = Inr v'"
  using assms by (auto simp: coerce_raw_input_def split: sum.splits prod.splits)

lemma project_field_coerced:
  assumes step: "project_field B evdesc desc amap (ExecStoreTuple tuple slot0) i st = Inr st'"
    and map: "amap ! i = int j" and src: "source_value tuple i = Some v"
    and len: "j < length (fst st)" "j < length (snd st)"
    and ty: "atttypid (evdesc ! i) \<noteq> atttypid (desc ! j)"
  shows "case coerce_to_target_type B
           (makeConst (atttypid (evdesc ! i)) (atttypmod (evdesc ! i)) (attcollation (evdesc ! i))
              (attlen (evdesc ! i)) v False (attbyval (evdesc ! i)))
           (atttypid (evdesc ! i)) (atttypid (desc ! j)) (atttypmod (desc ! j))
           COERCION_ASSIGNMENT COERCE_IMPLICIT_CAST of
         Some n \<Rightarrow> ExecEvalExpr B n = Inr (fst st' ! j, snd st' ! j)
       | None \<Rightarrow> coerce_raw_input B v (atttypid (evdesc ! i)) (atttypid (desc ! j)) = Inr (fst st' ! j)
                  \<and> \<not> snd st' ! j"
  using assms slot_getattr_stored [of tuple slot0 i]
  by (auto simp: project_field_def Let_def split: if_splits sum.splits option.splits prod.splits)

lemma coerced_field:
  assumes proj: "exec_stream_project B sts node = Inr (row, node')"
    and ev: "eventdesc (pi node) = Some evdesc" and am: "attrmap (pi node) = Some amap"
    and i: "i < length evdesc" and map: "amap ! i = int j"
    and src: "source_value (sts_tup sts) i = Some v"
    and ty: "atttypid (evdesc ! i) \<noteq> atttypid (resultdesc (pi node) ! j)"
    and last: "\<forall>i'<length evdesc. i < i' \<longrightarrow> amap ! i' = int j \<longrightarrow> source_value (sts_tup sts) i' = None"
    and na: "\<not> is_arrival_att (resultdesc (pi node)) j"
  shows "case coerce_to_target_type B
           (makeConst (atttypid (evdesc ! i)) (atttypmod (evdesc ! i)) (attcollation (evdesc ! i))
              (attlen (evdesc ! i)) v False (attbyval (evdesc ! i)))
           (atttypid (evdesc ! i)) (atttypid (resultdesc (pi node) ! j))
           (atttypmod (resultdesc (pi node) ! j))
           COERCION_ASSIGNMENT COERCE_IMPLICIT_CAST of
         Some n \<Rightarrow> (\<exists>v' isnull'. ExecEvalExpr B n = Inr (v', isnull') \<and>
                       row ! j = (if isnull' then None else Some v'))
       | None \<Rightarrow> (\<exists>v'. coerce_raw_input B v (atttypid (evdesc ! i))
                          (atttypid (resultdesc (pi node) ! j)) = Inr v' \<and> row ! j = Some v')"
proof -
  let ?desc = "resultdesc (pi node)"
  from proj obtain evdesc' amap' slot0 st where
    e: "eventdesc (pi node) = Some evdesc'" "attrmap (pi node) = Some amap'" and
    pf: "project_fields B evdesc' ?desc amap' (ExecStoreTuple (sts_tup sts) slot0)
       [0..<length evdesc']
       (replicate (length ?desc) (Int64Datum 0), replicate (length ?desc) True) = Inr st" and
    row: "row = heap_form_tuple ?desc
       (fst (project_arrival_time ?desc 0 (sts_arrival_time sts) st))
       (snd (project_arrival_time ?desc 0 (sts_arrival_time sts) st))"
    by (rule exec_stream_projectE)
  from e ev am have eq: "evdesc' = evdesc" "amap' = amap" by simp_all
  let ?slot = "ExecStoreTuple (sts_tup sts) slot0"
  let ?st0 = "(replicate (length ?desc) (Int64Datum 0), replicate (length ?desc) True)"
  have split: "[0..<length evdesc] = [0..<i] @ [i] @ [Suc i..<length evdesc]"
    using i by (metis append_Cons append_Nil le0 less_imp_le_nat upt_add_eq_append upt_conv_Cons
        le_add_diff_inverse)
  from pf [unfolded eq] obtain st1 st2 where
    p1: "project_fields B evdesc ?desc amap ?slot [0..<i] ?st0 = Inr st1" and
    p2: "project_field B evdesc ?desc amap ?slot i st1 = Inr st2" and
    p3: "project_fields B evdesc ?desc amap ?slot [Suc i..<length evdesc] st2 = Inr st"
    unfolding split by (auto simp: project_fields_append split: sum.splits)
  from map src p2 have j: "j < length ?desc"
    using slot_getattr_stored [of "sts_tup sts" slot0 i]
    by (auto simp: project_field_def Let_def split: if_splits sum.splits prod.splits)
  from project_fields_length [OF p1] j
  have len1: "j < length (fst st1)" "j < length (snd st1)" by simp_all
  from last have "\<forall>i'\<in>set [Suc i..<length evdesc]. amap ! i' \<noteq> int j \<or> source_value (sts_tup sts) i' = None"
    by auto
  from project_fields_frame [OF p3 this]
  have f3: "fst st ! j = fst st2 ! j" "snd st ! j = snd st2 ! j" by simp_all
  from project_arrival_time_frame [OF na, of "sts_arrival_time sts" st] f3
  have f4: "fst (project_arrival_time ?desc 0 (sts_arrival_time sts) st) ! j = fst st2 ! j"
    "snd (project_arrival_time ?desc 0 (sts_arrival_time sts) st) ! j = snd st2 ! j" by simp_all
  from row j f4 have r: "row ! j = (if snd st2 ! j then None else Some (fst st2 ! j))"
    by (simp add: heap_form_tuple_nth)
  from project_field_coerced [OF p2 map src len1 ty] r show ?thesis
    by (auto split: option.splits)
qed

text \<open>
  The step for a mapped field with a value and a type of its own, errors included; and the
  projection split around one field.
\<close>

lemma slot_getattr_value:
  assumes "i < length (tts_tupleDescriptor slot0)" "source_value tuple i = Some v"
  shows "slot_getattr (ExecStoreTuple tuple slot0) (i + 1) = Inr (v, False)"
  using assms
  by (auto simp: slot_getattr_def ExecStoreTuple_def source_value_def split: if_splits)

lemma project_field_outcome:
  fixes B :: "'n backend"
  assumes i: "i < length amap" "i < length (tts_tupleDescriptor slot0)"
    and map: "amap ! i = int j" and j: "j < length desc"
    and src: "source_value tuple i = Some v"
    and ty: "atttypid (evdesc ! i) \<noteq> atttypid (desc ! j)"
  shows "project_field B evdesc desc amap (ExecStoreTuple tuple slot0) i (vals, nulls) =
     (case coerce_to_target_type B
             (makeConst (atttypid (evdesc ! i)) (atttypmod (evdesc ! i))
                (attcollation (evdesc ! i)) (attlen (evdesc ! i)) v False (attbyval (evdesc ! i)))
             (atttypid (evdesc ! i)) (atttypid (desc ! j)) (atttypmod (desc ! j))
             COERCION_ASSIGNMENT COERCE_IMPLICIT_CAST of
        Some n \<Rightarrow>
          (case ExecEvalExpr B n of
             Inl e \<Rightarrow> Inl e
           | Inr (v', isnull') \<Rightarrow> Inr (vals[j := v'], nulls[j := isnull']))
      | None \<Rightarrow>
          (case getTypeOutputInfo B (atttypid (evdesc ! i)) of
             Inl e \<Rightarrow> Inl e
           | Inr (outfn, isvlen) \<Rightarrow>
               (case OidOutputFunctionCall B outfn v of
                  Inl e \<Rightarrow> Inl e
                | Inr orig \<Rightarrow>
                    (case getTypeInputInfo B (atttypid (desc ! j)) of
                       Inl e \<Rightarrow> Inl e
                     | Inr (infn, ioparam) \<Rightarrow>
                         (case OidInputFunctionCall B infn orig ioparam (- 1) of
                            Inl e \<Rightarrow> Inl e
                          | Inr v' \<Rightarrow> Inr (vals[j := v'], nulls[j := False]))))))"
proof -
  note g = slot_getattr_value [OF i(2) src]
  from i(1) map j ty show ?thesis
    unfolding project_field_def g
    by (simp add: Let_def coerce_raw_input_def
        split: option.splits sum.splits prod.splits)
qed

lemma exec_stream_project_around:
  fixes B :: "'n backend"
  assumes ev: "eventdesc (pi node) = Some evdesc" and am: "attrmap (pi node) = Some amap"
    and cs: "curslot (pi node) = Some slot0" and i: "i < length evdesc"
  shows "exec_stream_project B sts node =
     (case project_fields B evdesc (resultdesc (pi node)) amap (ExecStoreTuple (sts_tup sts) slot0)
             [0..<i]
             (replicate (length (resultdesc (pi node))) (Int64Datum 0),
              replicate (length (resultdesc (pi node))) True) of
        Inl e \<Rightarrow> Inl e
      | Inr st1 \<Rightarrow>
          (case project_field B evdesc (resultdesc (pi node)) amap
                  (ExecStoreTuple (sts_tup sts) slot0) i st1 of
             Inl e \<Rightarrow> Inl e
           | Inr st2 \<Rightarrow>
               (case project_fields B evdesc (resultdesc (pi node)) amap
                       (ExecStoreTuple (sts_tup sts) slot0) [Suc i..<length evdesc] st2 of
                  Inl e \<Rightarrow> Inl e
                | Inr st \<Rightarrow>
                    Inr (heap_form_tuple (resultdesc (pi node))
                           (fst (project_arrival_time (resultdesc (pi node)) 0
                                   (sts_arrival_time sts) st))
                           (snd (project_arrival_time (resultdesc (pi node)) 0
                                   (sts_arrival_time sts) st)),
                         node\<lparr>pi := (pi node)
                                 \<lparr>curslot := Some (ExecStoreTuple (sts_tup sts) slot0)\<rparr>\<rparr>))))"
proof -
  have split: "[0..<length evdesc] = [0..<i] @ [i] @ [Suc i..<length evdesc]"
    using i by (metis append_Cons append_Nil le0 less_imp_le_nat upt_add_eq_append upt_conv_Cons
        le_add_diff_inverse)
  have whole: "exec_stream_project B sts node =
     (case project_fields B evdesc (resultdesc (pi node)) amap (ExecStoreTuple (sts_tup sts) slot0)
             [0..<length evdesc]
             (replicate (length (resultdesc (pi node))) (Int64Datum 0),
              replicate (length (resultdesc (pi node))) True) of
        Inl e \<Rightarrow> Inl e
      | Inr st \<Rightarrow>
          Inr (heap_form_tuple (resultdesc (pi node))
                 (fst (project_arrival_time (resultdesc (pi node)) 0 (sts_arrival_time sts) st))
                 (snd (project_arrival_time (resultdesc (pi node)) 0 (sts_arrival_time sts) st)),
               node\<lparr>pi := (pi node)\<lparr>curslot := Some (ExecStoreTuple (sts_tup sts) slot0)\<rparr>\<rparr>))"
    by (simp add: exec_stream_project_def ev am cs Let_def cong: sum.case_cong)
  have loop: "project_fields B evdesc (resultdesc (pi node)) amap (ExecStoreTuple (sts_tup sts) slot0)
        [0..<length evdesc] st0 =
     (case project_fields B evdesc (resultdesc (pi node)) amap (ExecStoreTuple (sts_tup sts) slot0)
             [0..<i] st0 of
        Inl e \<Rightarrow> Inl e
      | Inr st1 \<Rightarrow>
          (case project_field B evdesc (resultdesc (pi node)) amap
                  (ExecStoreTuple (sts_tup sts) slot0) i st1 of
             Inl e \<Rightarrow> Inl e
           | Inr st2 \<Rightarrow>
               project_fields B evdesc (resultdesc (pi node)) amap
                 (ExecStoreTuple (sts_tup sts) slot0) [Suc i..<length evdesc] st2))" for st0
    by (subst split) (simp add: project_fields_append cong: sum.case_cong)
  show ?thesis
    unfolding whole loop by (simp split: sum.splits cong: sum.case_cong)
qed

subsection \<open>Runs of the projection\<close>

lemmas demo_defs = demo_backend_def demo_pinfo_def demo_event_def demo_att_def demo_node_def
  demo_cached_def

lemma demo_init_1:
  "init_proj_info demo_backend (demo_pinfo [demo_att ''A'' 25, demo_att ''c'' 23])
     (demo_event [0, 23, 1, 25] [0, 0, 0, 7] [Some (Int64Datum 42), Some (TextDatum ''x'')]) Map.empty =
   Inr (demo_cached [demo_att ''a'' 23, demo_att ''B'' 25] [demo_att ''A'' 25, demo_att ''c'' 23]
          [0, - 1] None \<lparr>vl_dat = [0, 23, 1, 25], vl_behind = [0, 0, 0, 7]\<rparr>, Map.empty)"
  by (simp add: init_proj_info_def demo_defs map_field_positions_def pg_tolower_def
      VARDATA_def VARSIZE_def VARHDRSZ_def Let_def)

lemma demo_project_1:
  "exec_stream_project demo_backend
     (demo_event [0, 23, 1, 25] [0, 0, 0, 7] [Some (Int64Datum 42), Some (TextDatum ''x'')])
     (demo_node (demo_cached [demo_att ''a'' 23, demo_att ''B'' 25]
        [demo_att ''A'' 25, demo_att ''c'' 23] [0, - 1] None
        \<lparr>vl_dat = [0, 23, 1, 25], vl_behind = [0, 0, 0, 7]\<rparr>)) =
   Inr ([Some (TextDatum ''42''), None],
     demo_node (demo_cached [demo_att ''a'' 23, demo_att ''B'' 25]
        [demo_att ''A'' 25, demo_att ''c'' 23] [0, - 1]
        (Some [Some (Int64Datum 42), Some (TextDatum ''x'')])
        \<lparr>vl_dat = [0, 23, 1, 25], vl_behind = [0, 0, 0, 7]\<rparr>))"
  by code_simp

lemma demo_project_cast:
  "exec_stream_project demo_backend (demo_event [0, 23] [0, 0, 0, 7] [Some (Int64Datum 7)])
     (demo_node (demo_cached [demo_att ''a'' 23] [demo_att ''A'' 20] [0] None
        \<lparr>vl_dat = [0, 23], vl_behind = [0, 0, 0, 7]\<rparr>)) =
   Inr ([Some (Int64Datum 7)],
     demo_node (demo_cached [demo_att ''a'' 23] [demo_att ''A'' 20] [0]
        (Some [Some (Int64Datum 7)]) \<lparr>vl_dat = [0, 23], vl_behind = [0, 0, 0, 7]\<rparr>))"
  by code_simp

subsection \<open>Field map and null fields\<close>

text \<open>
  C1, amended. For every incoming event and result descriptor, the field map that
  \<^verbatim>\<open>init_proj_info\<close> caches has one entry for each source field: \<open>-1\<close> when no
  destination field has the source field's name up to case, else the position of the first
  destination field that has. In the projected row every destination field other than
  the arrival-time attribute is null unless a mapped source field with a non-null value
  was assigned to it.
\<close>

theorem field_map_and_unassigned_fields:
  fixes B :: "'n backend"
  assumes init: "init_proj_info B pinfo sts cache = Inr (pinfo', cache')"
    and proj: "exec_stream_project B sts (node\<lparr>pi := pinfo'\<rparr>) = Inr (row, node')"
  defines "evdesc \<equiv> UnpackTupleDesc B (vl_dat (sts_desc sts))"
    and "desc \<equiv> resultdesc pinfo"
  defines "amap \<equiv> map_field_positions evdesc desc"
  shows "attrmap pinfo' = Some amap \<and> length amap = length evdesc \<and>
     (\<forall>i<length evdesc.
        (amap ! i = - 1 \<and>
         (\<forall>k<length desc. pg_strcasecmp (attname (evdesc ! i)) (attname (desc ! k)) \<noteq> 0)) \<or>
        (\<exists>k<length desc. amap ! i = int k \<and>
           pg_strcasecmp (attname (evdesc ! i)) (attname (desc ! k)) = 0 \<and>
           (\<forall>k'<k. pg_strcasecmp (attname (evdesc ! i)) (attname (desc ! k')) \<noteq> 0))) \<and>
     length row = length desc \<and>
     (\<forall>j<length desc.
        (\<forall>i<length evdesc. amap ! i = int j \<longrightarrow> source_value (sts_tup sts) i = None) \<longrightarrow>
        \<not> is_arrival_att desc j \<longrightarrow> row ! j = None)"
proof -
  from init_proj_info_fields [OF init]
  have f: "eventdesc pinfo' = Some evdesc" "attrmap pinfo' = Some amap"
    "resultdesc pinfo' = desc"
    by (simp_all add: evdesc_def desc_def amap_def)
  have len: "length amap = length evdesc" by (simp add: amap_def map_field_positions_def)
  have ent: "\<forall>i<length evdesc.
        (amap ! i = - 1 \<and>
         (\<forall>k<length desc. pg_strcasecmp (attname (evdesc ! i)) (attname (desc ! k)) \<noteq> 0)) \<or>
        (\<exists>k<length desc. amap ! i = int k \<and>
           pg_strcasecmp (attname (evdesc ! i)) (attname (desc ! k)) = 0 \<and>
           (\<forall>k'<k. pg_strcasecmp (attname (evdesc ! i)) (attname (desc ! k')) \<noteq> 0))"
  proof (intro allI impI)
    fix i assume "i < length evdesc"
    then have "amap ! i = map_field_scan (attname (evdesc ! i)) desc 0"
      by (simp add: amap_def map_field_positions_def)
    with map_field_scan_cases [of "attname (evdesc ! i)" desc 0]
    show "(amap ! i = - 1 \<and>
         (\<forall>k<length desc. pg_strcasecmp (attname (evdesc ! i)) (attname (desc ! k)) \<noteq> 0)) \<or>
        (\<exists>k<length desc. amap ! i = int k \<and>
           pg_strcasecmp (attname (evdesc ! i)) (attname (desc ! k)) = 0 \<and>
           (\<forall>k'<k. pg_strcasecmp (attname (evdesc ! i)) (attname (desc ! k')) \<noteq> 0))"
      by simp
  qed
  from f have n: "eventdesc (pi (node\<lparr>pi := pinfo'\<rparr>)) = Some evdesc"
    "attrmap (pi (node\<lparr>pi := pinfo'\<rparr>)) = Some amap"
    "resultdesc (pi (node\<lparr>pi := pinfo'\<rparr>)) = desc" by simp_all
  from row_length [OF proj] n have rl: "length row = length desc" by simp
  have un: "\<forall>j<length desc.
        (\<forall>i<length evdesc. amap ! i = int j \<longrightarrow> source_value (sts_tup sts) i = None) \<longrightarrow>
        \<not> is_arrival_att desc j \<longrightarrow> row ! j = None"
  proof (intro allI impI)
    fix j assume j: "j < length desc"
      and a: "\<forall>i<length evdesc. amap ! i = int j \<longrightarrow> source_value (sts_tup sts) i = None"
      and b: "\<not> is_arrival_att desc j"
    from j n have j': "j < length (resultdesc (pi (node\<lparr>pi := pinfo'\<rparr>)))" by simp
    from b n have b': "\<not> is_arrival_att (resultdesc (pi (node\<lparr>pi := pinfo'\<rparr>))) j" by simp
    show "row ! j = None"
      by (rule unassigned_field_null [OF proj n(1) n(2) j' a b'])
  qed
  from f(2) len ent rl un show ?thesis by (intro conjI)
qed

text \<open>
  The spec's scenario: \<open>{a: 23, B: 25}\<close> projected to \<open>{A: 25, c: 23}\<close>; \<open>A\<close> gets the
  text of \<open>a\<close>, \<open>c\<close> stays null, \<open>B\<close> is not mapped.
\<close>

theorem field_map_and_unassigned_fields_witness:
  "init_proj_info demo_backend (demo_pinfo [demo_att ''A'' 25, demo_att ''c'' 23])
     (demo_event [0, 23, 1, 25] [0, 0, 0, 7] [Some (Int64Datum 42), Some (TextDatum ''x'')]) Map.empty =
   Inr (demo_cached [demo_att ''a'' 23, demo_att ''B'' 25] [demo_att ''A'' 25, demo_att ''c'' 23]
          [0, - 1] None \<lparr>vl_dat = [0, 23, 1, 25], vl_behind = [0, 0, 0, 7]\<rparr>, Map.empty) \<and>
   exec_stream_project demo_backend
     (demo_event [0, 23, 1, 25] [0, 0, 0, 7] [Some (Int64Datum 42), Some (TextDatum ''x'')])
     (demo_node (demo_cached [demo_att ''a'' 23, demo_att ''B'' 25]
        [demo_att ''A'' 25, demo_att ''c'' 23] [0, - 1] None
        \<lparr>vl_dat = [0, 23, 1, 25], vl_behind = [0, 0, 0, 7]\<rparr>)) =
   Inr ([Some (TextDatum ''42''), None],
     demo_node (demo_cached [demo_att ''a'' 23, demo_att ''B'' 25]
        [demo_att ''A'' 25, demo_att ''c'' 23] [0, - 1]
        (Some [Some (Int64Datum 42), Some (TextDatum ''x'')])
        \<lparr>vl_dat = [0, 23, 1, 25], vl_behind = [0, 0, 0, 7]\<rparr>)) \<and>
   [Some (TextDatum ''42''), None] ! 1 = None"
proof -
  note i = demo_init_1
  have p: "exec_stream_project demo_backend
     (demo_event [0, 23, 1, 25] [0, 0, 0, 7] [Some (Int64Datum 42), Some (TextDatum ''x'')])
     ((demo_node (demo_pinfo []))\<lparr>pi := demo_cached [demo_att ''a'' 23, demo_att ''B'' 25]
        [demo_att ''A'' 25, demo_att ''c'' 23] [0, - 1] None
        \<lparr>vl_dat = [0, 23, 1, 25], vl_behind = [0, 0, 0, 7]\<rparr>\<rparr>) =
   Inr ([Some (TextDatum ''42''), None],
     demo_node (demo_cached [demo_att ''a'' 23, demo_att ''B'' 25]
        [demo_att ''A'' 25, demo_att ''c'' 23] [0, - 1]
        (Some [Some (Int64Datum 42), Some (TextDatum ''x'')])
        \<lparr>vl_dat = [0, 23, 1, 25], vl_behind = [0, 0, 0, 7]\<rparr>))"
    using demo_project_1 by (simp add: demo_node_def)
  from field_map_and_unassigned_fields [OF i p] i demo_project_1
  show ?thesis by simp
qed

text \<open>
  An event without any field, projected to a descriptor whose only attribute is the
  arrival time: the field is not null, though no source value was assigned to it.
\<close>

theorem arrival_column_not_null_counterexample:
  "UnpackTupleDesc demo_backend (vl_dat (sts_desc (demo_event [] [0, 0, 0, 0] []))) = [] \<and>
   init_proj_info demo_backend (demo_pinfo [demo_att ''Arrival_Timestamp'' 1184])
     (demo_event [] [0, 0, 0, 0] []) Map.empty =
   Inr (demo_cached [] [demo_att ''Arrival_Timestamp'' 1184] [] None
          \<lparr>vl_dat = [], vl_behind = [0, 0, 0, 0]\<rparr>, Map.empty) \<and>
   exec_stream_project demo_backend (demo_event [] [0, 0, 0, 0] [])
     (demo_node (demo_cached [] [demo_att ''Arrival_Timestamp'' 1184] [] None
          \<lparr>vl_dat = [], vl_behind = [0, 0, 0, 0]\<rparr>)) =
   Inr ([Some (Int64Datum 1000)],
        demo_node (demo_cached [] [demo_att ''Arrival_Timestamp'' 1184] [] (Some [])
          \<lparr>vl_dat = [], vl_behind = [0, 0, 0, 0]\<rparr>)) \<and>
   [Some (Int64Datum 1000)] ! 0 \<noteq> None"
proof -
  have a: "UnpackTupleDesc demo_backend (vl_dat (sts_desc (demo_event [] [0, 0, 0, 0] []))) = []"
    by (simp add: demo_defs)
  have b: "init_proj_info demo_backend (demo_pinfo [demo_att ''Arrival_Timestamp'' 1184])
     (demo_event [] [0, 0, 0, 0] []) Map.empty =
   Inr (demo_cached [] [demo_att ''Arrival_Timestamp'' 1184] [] None
          \<lparr>vl_dat = [], vl_behind = [0, 0, 0, 0]\<rparr>, Map.empty)"
    by (simp add: init_proj_info_def demo_defs map_field_positions_def
      VARDATA_def VARSIZE_def VARHDRSZ_def Let_def)
  have c: "exec_stream_project demo_backend (demo_event [] [0, 0, 0, 0] [])
     (demo_node (demo_cached [] [demo_att ''Arrival_Timestamp'' 1184] [] None
          \<lparr>vl_dat = [], vl_behind = [0, 0, 0, 0]\<rparr>)) =
   Inr ([Some (Int64Datum 1000)],
        demo_node (demo_cached [] [demo_att ''Arrival_Timestamp'' 1184] [] (Some [])
          \<lparr>vl_dat = [], vl_behind = [0, 0, 0, 0]\<rparr>))"
    by code_simp
  from a b c show ?thesis by simp
qed

subsection \<open>Coercion\<close>

text \<open>
  C3. For every source field with a non-null value that is mapped to a destination field
  of another type, the projector's step for that field is exactly this: it asks
  \<^verbatim>\<open>coerce_to_target_type\<close> for an assignment cast in implicit-cast form; if the type
  system offers a conversion expression, it evaluates that expression and stores its value
  and null flag, an error of the evaluation being the outcome, and no text conversion
  takes place; only if there is no such expression does it render the value with the
  source type's output function and parse the text with the destination type's input
  function, storing the result as not null, the first error being the outcome. The
  projection of the event is the steps of the fields before, this step, the steps of the
  fields after, then the arrival time and the row, and it ends with the first error.
\<close>

theorem coercion_order:
  fixes B :: "'n backend"
  assumes ev: "eventdesc (pi node) = Some evdesc" and am: "attrmap (pi node) = Some amap"
    and cs: "curslot (pi node) = Some slot0"
    and i: "i < length evdesc" "i < length amap" "i < length (tts_tupleDescriptor slot0)"
    and map: "amap ! i = int j" and j: "j < length (resultdesc (pi node))"
    and src: "source_value (sts_tup sts) i = Some v"
    and ty: "atttypid (evdesc ! i) \<noteq> atttypid (resultdesc (pi node) ! j)"
  shows
    "(\<forall>vals nulls.
        project_field B evdesc (resultdesc (pi node)) amap (ExecStoreTuple (sts_tup sts) slot0) i
          (vals, nulls) =
        (case coerce_to_target_type B
                (makeConst (atttypid (evdesc ! i)) (atttypmod (evdesc ! i))
                   (attcollation (evdesc ! i)) (attlen (evdesc ! i)) v False
                   (attbyval (evdesc ! i)))
                (atttypid (evdesc ! i)) (atttypid (resultdesc (pi node) ! j))
                (atttypmod (resultdesc (pi node) ! j))
                COERCION_ASSIGNMENT COERCE_IMPLICIT_CAST of
           Some n \<Rightarrow>
             (case ExecEvalExpr B n of
                Inl e \<Rightarrow> Inl e
              | Inr (v', isnull') \<Rightarrow> Inr (vals[j := v'], nulls[j := isnull']))
         | None \<Rightarrow>
             (case getTypeOutputInfo B (atttypid (evdesc ! i)) of
                Inl e \<Rightarrow> Inl e
              | Inr (outfn, isvlen) \<Rightarrow>
                  (case OidOutputFunctionCall B outfn v of
                     Inl e \<Rightarrow> Inl e
                   | Inr orig \<Rightarrow>
                       (case getTypeInputInfo B (atttypid (resultdesc (pi node) ! j)) of
                          Inl e \<Rightarrow> Inl e
                        | Inr (infn, ioparam) \<Rightarrow>
                            (case OidInputFunctionCall B infn orig ioparam (- 1) of
                               Inl e \<Rightarrow> Inl e
                             | Inr v' \<Rightarrow> Inr (vals[j := v'], nulls[j := False]))))))) \<and>
     exec_stream_project B sts node =
       (case project_fields B evdesc (resultdesc (pi node)) amap
               (ExecStoreTuple (sts_tup sts) slot0) [0..<i]
               (replicate (length (resultdesc (pi node))) (Int64Datum 0),
                replicate (length (resultdesc (pi node))) True) of
          Inl e \<Rightarrow> Inl e
        | Inr st1 \<Rightarrow>
            (case project_field B evdesc (resultdesc (pi node)) amap
                    (ExecStoreTuple (sts_tup sts) slot0) i st1 of
               Inl e \<Rightarrow> Inl e
             | Inr st2 \<Rightarrow>
                 (case project_fields B evdesc (resultdesc (pi node)) amap
                         (ExecStoreTuple (sts_tup sts) slot0) [Suc i..<length evdesc] st2 of
                    Inl e \<Rightarrow> Inl e
                  | Inr st \<Rightarrow>
                      Inr (heap_form_tuple (resultdesc (pi node))
                             (fst (project_arrival_time (resultdesc (pi node)) 0
                                     (sts_arrival_time sts) st))
                             (snd (project_arrival_time (resultdesc (pi node)) 0
                                     (sts_arrival_time sts) st)),
                           node\<lparr>pi := (pi node)
                                   \<lparr>curslot := Some (ExecStoreTuple (sts_tup sts) slot0)\<rparr>\<rparr>))))"
proof (rule conjI)
  show "exec_stream_project B sts node =
       (case project_fields B evdesc (resultdesc (pi node)) amap
               (ExecStoreTuple (sts_tup sts) slot0) [0..<i]
               (replicate (length (resultdesc (pi node))) (Int64Datum 0),
                replicate (length (resultdesc (pi node))) True) of
          Inl e \<Rightarrow> Inl e
        | Inr st1 \<Rightarrow>
            (case project_field B evdesc (resultdesc (pi node)) amap
                    (ExecStoreTuple (sts_tup sts) slot0) i st1 of
               Inl e \<Rightarrow> Inl e
             | Inr st2 \<Rightarrow>
                 (case project_fields B evdesc (resultdesc (pi node)) amap
                         (ExecStoreTuple (sts_tup sts) slot0) [Suc i..<length evdesc] st2 of
                    Inl e \<Rightarrow> Inl e
                  | Inr st \<Rightarrow>
                      Inr (heap_form_tuple (resultdesc (pi node))
                             (fst (project_arrival_time (resultdesc (pi node)) 0
                                     (sts_arrival_time sts) st))
                             (snd (project_arrival_time (resultdesc (pi node)) 0
                                     (sts_arrival_time sts) st)),
                           node\<lparr>pi := (pi node)
                                   \<lparr>curslot := Some (ExecStoreTuple (sts_tup sts) slot0)\<rparr>\<rparr>))))"
    by (rule exec_stream_project_around [OF ev am cs i(1)])
qed (intro allI, rule project_field_outcome [OF i(2) i(3) map j src ty])

text \<open>
  A field of type 23 mapped to type 20, where a cast exists and the text round trip would
  fail: the cast's value is stored. The same field mapped to type 25, where no cast exists:
  the text \<open>42\<close> is stored.
\<close>

theorem coercion_order_witness:
  "source_value (sts_tup (demo_event [0, 23] [0, 0, 0, 7] [Some (Int64Datum 7)])) 0 =
     Some (Int64Datum 7) \<and>
   atttypid ([demo_att ''a'' 23] ! 0) \<noteq> atttypid ([demo_att ''A'' 20] ! 0) \<and>
   coerce_to_target_type demo_backend (makeConst 23 (- 1) 0 (- 1) (Int64Datum 7) False False)
     23 20 (- 1) COERCION_ASSIGNMENT COERCE_IMPLICIT_CAST = Some (Int64Datum 7) \<and>
   coerce_raw_input demo_backend (Int64Datum 7) 23 20 = Inl ElogError \<and>
   project_field demo_backend [demo_att ''a'' 23] [demo_att ''A'' 20] [0]
     (ExecStoreTuple [Some (Int64Datum 7)]
        \<lparr>tts_tupleDescriptor = [demo_att ''a'' 23], tts_tuple = None\<rparr>) 0
     ([Int64Datum 0], [True]) = Inr ([Int64Datum 7], [False]) \<and>
   exec_stream_project demo_backend (demo_event [0, 23] [0, 0, 0, 7] [Some (Int64Datum 7)])
     (demo_node (demo_cached [demo_att ''a'' 23] [demo_att ''A'' 20] [0] None
        \<lparr>vl_dat = [0, 23], vl_behind = [0, 0, 0, 7]\<rparr>)) =
   Inr ([Some (Int64Datum 7)],
     demo_node (demo_cached [demo_att ''a'' 23] [demo_att ''A'' 20] [0]
        (Some [Some (Int64Datum 7)]) \<lparr>vl_dat = [0, 23], vl_behind = [0, 0, 0, 7]\<rparr>)) \<and>
   coerce_to_target_type demo_backend (makeConst 23 (- 1) 0 (- 1) (Int64Datum 42) False False)
     23 25 (- 1) COERCION_ASSIGNMENT COERCE_IMPLICIT_CAST = None \<and>
   project_field demo_backend [demo_att ''a'' 23, demo_att ''B'' 25]
     [demo_att ''A'' 25, demo_att ''c'' 23] [0, - 1]
     (ExecStoreTuple [Some (Int64Datum 42), Some (TextDatum ''x'')]
        \<lparr>tts_tupleDescriptor = [demo_att ''a'' 23, demo_att ''B'' 25], tts_tuple = None\<rparr>) 0
     ([Int64Datum 0, Int64Datum 0], [True, True]) =
   Inr ([TextDatum ''42'', Int64Datum 0], [False, True])"
proof -
  let ?sts = "demo_event [0, 23] [0, 0, 0, 7] [Some (Int64Datum 7)]"
  let ?slot0 = "\<lparr>tts_tupleDescriptor = [demo_att ''a'' 23], tts_tuple = None\<rparr>"
  let ?node = "demo_node (demo_cached [demo_att ''a'' 23] [demo_att ''A'' 20] [0] None
        \<lparr>vl_dat = [0, 23], vl_behind = [0, 0, 0, 7]\<rparr>)"
  have ev: "eventdesc (pi ?node) = Some [demo_att ''a'' 23]"
    and am: "attrmap (pi ?node) = Some [0]"
    and cs: "curslot (pi ?node) = Some ?slot0"
    and rd: "resultdesc (pi ?node) = [demo_att ''A'' 20]"
    by (simp_all add: demo_defs)
  have i: "(0::nat) < length [demo_att ''a'' 23]" "(0::nat) < length [0::int]"
    "(0::nat) < length (tts_tupleDescriptor ?slot0)" by simp_all
  have m: "[0] ! 0 = int 0" by simp
  have j: "0 < length (resultdesc (pi ?node))" by (simp add: rd)
  have src: "source_value (sts_tup ?sts) 0 = Some (Int64Datum 7)"
    by (simp add: source_value_def demo_defs)
  have ty: "atttypid ([demo_att ''a'' 23] ! 0) \<noteq> atttypid (resultdesc (pi ?node) ! 0)"
    by (simp add: demo_defs)
  have c: "coerce_to_target_type demo_backend (makeConst 23 (- 1) 0 (- 1) (Int64Datum 7) False False)
     23 20 (- 1) COERCION_ASSIGNMENT COERCE_IMPLICIT_CAST = Some (Int64Datum 7)"
    by (simp add: demo_defs makeConst_def)
  have slow: "coerce_raw_input demo_backend (Int64Datum 7) 23 20 = Inl ElogError"
    by (simp add: coerce_raw_input_def demo_defs)
  have st: "sts_tup ?sts = [Some (Int64Datum 7)]" by (simp add: demo_defs)
  from coercion_order [OF ev am cs i m j src ty, of demo_backend] c
  have f: "project_field demo_backend [demo_att ''a'' 23] [demo_att ''A'' 20] [0]
     (ExecStoreTuple [Some (Int64Datum 7)] ?slot0) 0 ([Int64Datum 0], [True]) =
     Inr ([Int64Datum 7], [False])"
    by (simp add: rd st demo_defs)
  let ?sts2 = "demo_event [0, 23, 1, 25] [0, 0, 0, 7] [Some (Int64Datum 42), Some (TextDatum ''x'')]"
  let ?slot2 = "\<lparr>tts_tupleDescriptor = [demo_att ''a'' 23, demo_att ''B'' 25], tts_tuple = None\<rparr>"
  let ?node2 = "demo_node (demo_cached [demo_att ''a'' 23, demo_att ''B'' 25]
        [demo_att ''A'' 25, demo_att ''c'' 23] [0, - 1] None
        \<lparr>vl_dat = [0, 23, 1, 25], vl_behind = [0, 0, 0, 7]\<rparr>)"
  have ev2: "eventdesc (pi ?node2) = Some [demo_att ''a'' 23, demo_att ''B'' 25]"
    and am2: "attrmap (pi ?node2) = Some [0, - 1]"
    and cs2: "curslot (pi ?node2) = Some ?slot2"
    and rd2: "resultdesc (pi ?node2) = [demo_att ''A'' 25, demo_att ''c'' 23]"
    by (simp_all add: demo_defs)
  have i2: "(0::nat) < length [demo_att ''a'' 23, demo_att ''B'' 25]" "(0::nat) < length [0::int, - 1]"
    "(0::nat) < length (tts_tupleDescriptor ?slot2)" by simp_all
  have m2: "[0, - 1] ! 0 = int 0" by simp
  have j2: "0 < length (resultdesc (pi ?node2))" by (simp add: rd2)
  have src2: "source_value (sts_tup ?sts2) 0 = Some (Int64Datum 42)"
    by (simp add: source_value_def demo_defs)
  have ty2: "atttypid ([demo_att ''a'' 23, demo_att ''B'' 25] ! 0) \<noteq>
      atttypid (resultdesc (pi ?node2) ! 0)"
    by (simp add: demo_defs)
  have c2: "coerce_to_target_type demo_backend (makeConst 23 (- 1) 0 (- 1) (Int64Datum 42) False False)
     23 25 (- 1) COERCION_ASSIGNMENT COERCE_IMPLICIT_CAST = None"
    by (simp add: demo_defs)
  have st2: "sts_tup ?sts2 = [Some (Int64Datum 42), Some (TextDatum ''x'')]"
    by (simp add: demo_defs)
  have sn: "show_nat 42 = ''42''" by code_simp
  from coercion_order [OF ev2 am2 cs2 i2 m2 j2 src2 ty2, of demo_backend] c2 sn
  have f2: "project_field demo_backend [demo_att ''a'' 23, demo_att ''B'' 25]
     [demo_att ''A'' 25, demo_att ''c'' 23] [0, - 1]
     (ExecStoreTuple [Some (Int64Datum 42), Some (TextDatum ''x'')] ?slot2) 0
     ([Int64Datum 0, Int64Datum 0], [True, True]) =
   Inr ([TextDatum ''42'', Int64Datum 0], [False, True])"
    by (simp add: rd2 st2 demo_defs)
  from src ty c slow f demo_project_cast c2 f2 show ?thesis
    by (simp add: rd)
qed

subsection \<open>Arrival time\<close>

text \<open>
  C4. Whenever the result descriptor has an arrival-time attribute (the first attribute
  named \<^verbatim>\<open>ARRIVAL_TIMESTAMP\<close> up to case), that field of the projected row is the event's
  arrival time and not null, whatever the field mapping has put there.
\<close>

theorem arrival_time_overrides:
  fixes B :: "'n backend"
  assumes proj: "exec_stream_project B sts node = Inr (row, node')"
    and ar: "is_arrival_att (resultdesc (pi node)) j"
  shows "row ! j = Some (TimestampGetDatum (sts_arrival_time sts))"
proof -
  from proj obtain evdesc amap slot0 st where
    pf: "project_fields B evdesc (resultdesc (pi node)) amap (ExecStoreTuple (sts_tup sts) slot0)
       [0..<length evdesc]
       (replicate (length (resultdesc (pi node))) (Int64Datum 0),
        replicate (length (resultdesc (pi node))) True) = Inr st" and
    row: "row = heap_form_tuple (resultdesc (pi node))
       (fst (project_arrival_time (resultdesc (pi node)) 0 (sts_arrival_time sts) st))
       (snd (project_arrival_time (resultdesc (pi node)) 0 (sts_arrival_time sts) st))"
    by (rule exec_stream_projectE)
  from project_fields_length [OF pf]
  have len: "length (fst st) = length (resultdesc (pi node))"
    "length (snd st) = length (resultdesc (pi node))" by simp_all
  from ar have j: "j < length (resultdesc (pi node))" by (simp add: is_arrival_att_def)
  from ar have "project_arrival_time (resultdesc (pi node)) 0 (sts_arrival_time sts) st =
      ((fst st)[0 + j := TimestampGetDatum (sts_arrival_time sts)], (snd st)[0 + j := False])"
    unfolding is_arrival_att_def by (intro project_arrival_time_first) auto
  with row j len show ?thesis by (simp add: heap_form_tuple_nth)
qed

text \<open>
  The event has a field of the same name with value 99; the row has the arrival time 1000.
\<close>

theorem arrival_time_overrides_witness:
  "exec_stream_project demo_backend
     (demo_event [0, 23, 3, 20] [0, 0, 0, 7] [Some (Int64Datum 5), Some (Int64Datum 99)])
     (demo_node (demo_cached [demo_att ''a'' 23, demo_att ''ARRIVAL_TIMESTAMP'' 20]
        [demo_att ''arrival_timestamp'' 20, demo_att ''a'' 23] [1, 0] None
        \<lparr>vl_dat = [0, 23, 3, 20], vl_behind = [0, 0, 0, 7]\<rparr>)) =
   Inr ([Some (Int64Datum 1000), Some (Int64Datum 5)],
     demo_node (demo_cached [demo_att ''a'' 23, demo_att ''ARRIVAL_TIMESTAMP'' 20]
        [demo_att ''arrival_timestamp'' 20, demo_att ''a'' 23] [1, 0]
        (Some [Some (Int64Datum 5), Some (Int64Datum 99)])
        \<lparr>vl_dat = [0, 23, 3, 20], vl_behind = [0, 0, 0, 7]\<rparr>)) \<and>
   is_arrival_att [demo_att ''arrival_timestamp'' 20, demo_att ''a'' 23] 0 \<and>
   [Some (Int64Datum 1000), Some (Int64Datum 5)] ! 0 =
     Some (TimestampGetDatum
       (sts_arrival_time (demo_event [0, 23, 3, 20] [0, 0, 0, 7]
          [Some (Int64Datum 5), Some (Int64Datum 99)])))"
proof -
  let ?node = "demo_node (demo_cached [demo_att ''a'' 23, demo_att ''ARRIVAL_TIMESTAMP'' 20]
        [demo_att ''arrival_timestamp'' 20, demo_att ''a'' 23] [1, 0] None
        \<lparr>vl_dat = [0, 23, 3, 20], vl_behind = [0, 0, 0, 7]\<rparr>)"
  have p: "exec_stream_project demo_backend
     (demo_event [0, 23, 3, 20] [0, 0, 0, 7] [Some (Int64Datum 5), Some (Int64Datum 99)]) ?node =
   Inr ([Some (Int64Datum 1000), Some (Int64Datum 5)],
     demo_node (demo_cached [demo_att ''a'' 23, demo_att ''ARRIVAL_TIMESTAMP'' 20]
        [demo_att ''arrival_timestamp'' 20, demo_att ''a'' 23] [1, 0]
        (Some [Some (Int64Datum 5), Some (Int64Datum 99)])
        \<lparr>vl_dat = [0, 23, 3, 20], vl_behind = [0, 0, 0, 7]\<rparr>))"
    by code_simp
  have a: "is_arrival_att [demo_att ''arrival_timestamp'' 20, demo_att ''a'' 23] 0"
    by (simp add: is_arrival_att_def demo_defs ARRIVAL_TIMESTAMP_def)
  then have a': "is_arrival_att (resultdesc (pi ?node)) 0" by (simp add: demo_defs)
  from arrival_time_overrides [OF p a'] p a show ?thesis by simp
qed

subsection \<open>The cached descriptor\<close>

text \<open>
  What the test compares against a cached descriptor: the payloads, and \<^verbatim>\<open>VARHDRSZ\<close>
  bytes behind each.
\<close>

lemma memcmp_bytes_zero_iff:
  "length xs = length ys \<Longrightarrow> memcmp_bytes xs ys = 0 \<longleftrightarrow> xs = ys"
proof (induction xs ys rule: memcmp_bytes.induct)
  case (1 a as b bs)
  have "a \<noteq> b \<Longrightarrow> int (unat a) - int (unat b) \<noteq> 0"
  proof -
    assume "a \<noteq> b"
    then have "unat a \<noteq> unat b" by (simp add: word_unat_eq_iff)
    then show ?thesis by linarith
  qed
  with 1 show ?case by auto
qed simp_all

lemma event_desc_differs_cached:
  assumes "VARHDRSZ \<le> length (vl_behind raw)" "VARHDRSZ \<le> length (vl_behind tupraw)"
  shows "event_desc_differs (Some raw) tupraw =
     Inr (vl_dat raw \<noteq> vl_dat tupraw \<or>
          take VARHDRSZ (vl_behind raw) \<noteq> take VARHDRSZ (vl_behind tupraw))"
proof (cases "length (vl_dat raw) = length (vl_dat tupraw)")
  case False
  then show ?thesis by (auto simp: event_desc_differs_def VARSIZE_def)
next
  case True
  let ?n = "length (vl_dat raw) + VARHDRSZ"
  have t1: "take ?n (vl_dat raw @ vl_behind raw) = vl_dat raw @ take VARHDRSZ (vl_behind raw)"
    by simp
  have t2: "take ?n (vl_dat tupraw @ vl_behind tupraw) =
      vl_dat tupraw @ take VARHDRSZ (vl_behind tupraw)"
    using True by simp
  from assms True have l: "length (vl_dat raw @ take VARHDRSZ (vl_behind raw)) =
      length (vl_dat tupraw @ take VARHDRSZ (vl_behind tupraw))" by simp
  from assms True have "memcmp (VARDATA raw) (VARDATA tupraw) (VARSIZE raw) =
      Inr (memcmp_bytes (vl_dat raw @ take VARHDRSZ (vl_behind raw))
             (vl_dat tupraw @ take VARHDRSZ (vl_behind tupraw)))"
    unfolding memcmp_def VARDATA_def VARSIZE_def t1 t2 by simp
  with True memcmp_bytes_zero_iff [OF l] show ?thesis
    by (simp add: event_desc_differs_def VARSIZE_def)
qed

text \<open>
  C2. The code at a failing input: after a first event, a second event arrives whose
  packed descriptor has the same bytes as the cached one, while the four bytes behind it
  in memory differ. The test of \<^verbatim>\<open>IterateStreamScan\<close> compares \<^verbatim>\<open>VARSIZE\<close> bytes from
  \<^verbatim>\<open>VARDATA\<close>, which is the payload and \<^verbatim>\<open>VARHDRSZ\<close> bytes more, finds a difference
  and runs \<^verbatim>\<open>init_proj_info\<close> again: the cached raw descriptor is replaced and the
  event's record descriptor enters the record-type cache.
\<close>

theorem identical_descriptor_is_rebuilt:
  "map_sum id (\<lambda>(slot, node, cache). (node, cache 5))
     (IterateStreamScan demo_backend (demo_scan [demo_att ''a'' 23])
        (Some (demo_event_a, 40)) Map.empty) =
   Inr (demo_scanned [demo_att ''a'' 23] [demo_att ''a'' 23] [0] [Some (Int64Datum 1)]
          [Some (Int64Datum 1)] \<lparr>vl_dat = [0, 23], vl_behind = [0, 0, 0, 7]\<rparr> 1 40, None) \<and>
   vl_dat (sts_desc demo_event_b) = [0, 23] \<and>
   event_desc_differs (Some \<lparr>vl_dat = [0, 23], vl_behind = [0, 0, 0, 7]\<rparr>)
     (sts_desc demo_event_b) = Inr True \<and>
   map_sum id (\<lambda>(slot, node, cache). (node, cache 5))
     (IterateStreamScan demo_backend
        (demo_scanned [demo_att ''a'' 23] [demo_att ''a'' 23] [0] [Some (Int64Datum 1)]
          [Some (Int64Datum 1)] \<lparr>vl_dat = [0, 23], vl_behind = [0, 0, 0, 7]\<rparr> 1 40)
        (Some (demo_event_b, 40)) Map.empty) =
   Inr (demo_scanned [demo_att ''a'' 23] [demo_att ''a'' 23] [0] [Some (Int64Datum 2)]
          [Some (Int64Datum 2)] \<lparr>vl_dat = [0, 23], vl_behind = [0, 0, 0, 9]\<rparr> 2 80,
        Some [demo_att ''c'' 25])"
  by code_simp

subsection \<open>Begin and rescan\<close>

lemma name_result_attrs_ok:
  assumes "i + length vs \<le> length desc"
  shows "\<exists>desc'. name_result_attrs vs i desc = Inr desc' \<and> length desc' = length desc \<and>
     (\<forall>k<length desc. attname (desc' ! k) =
        (if i \<le> k \<and> k < i + length vs then namestrcpy (vs ! (k - i)) else attname (desc ! k)))"
  using assms
proof (induction vs arbitrary: i desc)
  case Nil
  then show ?case by auto
next
  case (Cons v vs)
  let ?d = "desc[i := (desc ! i)\<lparr>attname := namestrcpy v\<rparr>]"
  from Cons.prems have i: "i < length desc" by simp
  from Cons.prems have "(i + 1) + length vs \<le> length ?d" by simp
  from Cons.IH [OF this] obtain desc' where
    r: "name_result_attrs vs (i + 1) ?d = Inr desc'" and l: "length desc' = length ?d" and
    n: "\<forall>k<length ?d. attname (desc' ! k) =
        (if i + 1 \<le> k \<and> k < (i + 1) + length vs then namestrcpy (vs ! (k - (i + 1)))
         else attname (?d ! k))"
    by (elim exE conjE)
  from i r have r': "name_result_attrs (v # vs) i desc = Inr desc'" by simp
  from l have l': "length desc' = length desc" by simp
  have n': "\<forall>k<length desc. attname (desc' ! k) =
        (if i \<le> k \<and> k < i + length (v # vs) then namestrcpy ((v # vs) ! (k - i))
         else attname (desc ! k))"
  proof (intro allI impI)
    fix k assume k: "k < length desc"
    with n have e: "attname (desc' ! k) =
        (if i + 1 \<le> k \<and> k < (i + 1) + length vs then namestrcpy (vs ! (k - (i + 1)))
         else attname (?d ! k))" by simp
    show "attname (desc' ! k) =
        (if i \<le> k \<and> k < i + length (v # vs) then namestrcpy ((v # vs) ! (k - i))
         else attname (desc ! k))"
    proof (cases "k = i")
      case True
      with e i show ?thesis by simp
    next
      case False
      show ?thesis
      proof (cases "i + 1 \<le> k \<and> k < (i + 1) + length vs")
        case True
        then have "k - i = Suc (k - (i + 1))" by arith
        then have nth: "(v # vs) ! (k - i) = vs ! (k - (i + 1))" by simp
        from True have g: "i \<le> k \<and> k < i + length (v # vs)" by simp
        from e have "attname (desc' ! k) = namestrcpy (vs ! (k - (i + 1)))"
          unfolding if_P [OF True] .
        with nth show ?thesis unfolding if_P [OF g] by simp
      next
        case f: False
        with False have g: "\<not> (i \<le> k \<and> k < i + length (v # vs))" by auto
        from e have "attname (desc' ! k) = attname (?d ! k)"
          unfolding if_not_P [OF f] .
        also from False have "attname (?d ! k) = attname (desc ! k)" by simp
        finally show ?thesis unfolding if_not_P [OF g] .
      qed
    qed
  qed
  from r' l' n' show ?case by (intro exI [of _ desc'] conjI)
qed

text \<open>
  C9, amended. In a build with assertion checking, beginning a scan whose target list and
  column name list differ in length fails with an assertion failure. In every build, when
  the two lengths agree, \<^verbatim>\<open>BeginStreamScan\<close> succeeds and the result descriptor has one
  attribute for each column name, carrying that name; no raw descriptor is cached yet.
\<close>

theorem result_descriptor_matches_colnames:
  "(assert_checking \<and> length (snd (fdw_private node)) \<noteq> length (fst (fdw_private node)) \<longrightarrow>
      BeginStreamScan assert_checking node eflags = Inl AssertionFailure) \<and>
   (length (snd (fdw_private node)) = length (fst (fdw_private node)) \<longrightarrow>
      (\<exists>node' state. BeginStreamScan assert_checking node eflags = Inr node' \<and>
         fdw_state node' = Some state \<and>
         length (resultdesc (pi state)) = length (fst (fdw_private node)) \<and>
         map attname (resultdesc (pi state)) = map namestrcpy (fst (fdw_private node)) \<and>
         raweventdesc (pi state) = None))"
proof (intro conjI impI)
  assume "assert_checking \<and> length (snd (fdw_private node)) \<noteq> length (fst (fdw_private node))"
  then show "BeginStreamScan assert_checking node eflags = Inl AssertionFailure"
    by (simp add: BeginStreamScan_def ExecTypeFromTL_def Let_def)
next
  let ?cn = "fst (fdw_private node)" and ?tl = "snd (fdw_private node)"
  assume eq: "length ?tl = length ?cn"
  then have "0 + length ?cn \<le> length ?tl" by simp
  from name_result_attrs_ok [OF this] obtain desc' where
    r: "name_result_attrs ?cn 0 ?tl = Inr desc'" and l: "length desc' = length ?tl" and
    n: "\<forall>k<length ?tl. attname (desc' ! k) =
        (if 0 \<le> k \<and> k < 0 + length ?cn then namestrcpy (?cn ! (k - 0)) else attname (?tl ! k))"
    by (elim exE conjE)
  let ?state = "\<lparr>pi = \<lparr>eventdesc = None, resultdesc = desc', curslot = None,
                          attrmap = None, raweventdesc = None\<rparr>, ntuples = 0, nbytes = 0\<rparr>"
  let ?node' = "node\<lparr>ss_ScanTupleSlot := \<lparr>tts_tupleDescriptor = desc', tts_tuple = None\<rparr>,
                     fdw_state := Some ?state\<rparr>"
  from eq r have b: "BeginStreamScan assert_checking node eflags = Inr ?node'"
    by (simp add: BeginStreamScan_def ExecTypeFromTL_def Let_def)
  from n eq l have names: "map attname desc' = map namestrcpy ?cn"
    by (intro nth_equalityI) simp_all
  from l eq have len: "length (resultdesc (pi ?state)) = length ?cn" by simp
  from names have names': "map attname (resultdesc (pi ?state)) = map namestrcpy ?cn" by simp
  have s: "fdw_state ?node' = Some ?state" by simp
  have raw: "raweventdesc (pi ?state) = None" by simp
  show "\<exists>node' state. BeginStreamScan assert_checking node eflags = Inr node' \<and>
         fdw_state node' = Some state \<and>
         length (resultdesc (pi state)) = length ?cn \<and>
         map attname (resultdesc (pi state)) = map namestrcpy ?cn \<and>
         raweventdesc (pi state) = None"
    by (rule exI [of _ ?node'], rule exI [of _ ?state]) (intro conjI b s len names' raw)
qed

text \<open>One column name for two attributes, with assertion checking; and two for two.\<close>

theorem result_descriptor_matches_colnames_witness:
  "(True \<and> length (snd (fdw_private (demo_plan [''x''] [demo_att ''a'' 23, demo_att ''b'' 25]))) \<noteq>
      length (fst (fdw_private (demo_plan [''x''] [demo_att ''a'' 23, demo_att ''b'' 25])))) \<and>
   BeginStreamScan True (demo_plan [''x''] [demo_att ''a'' 23, demo_att ''b'' 25]) 0 =
     Inl AssertionFailure \<and>
   length (snd (fdw_private (demo_plan [''x'', ''y''] [demo_att ''a'' 23, demo_att ''b'' 25]))) =
     length (fst (fdw_private (demo_plan [''x'', ''y''] [demo_att ''a'' 23, demo_att ''b'' 25]))) \<and>
   BeginStreamScan True (demo_plan [''x'', ''y''] [demo_att ''a'' 23, demo_att ''b'' 25]) 0 =
     Inr (demo_begun [''x'', ''y''] [demo_att ''a'' 23, demo_att ''b'' 25]
            [demo_att ''x'' 23, demo_att ''y'' 25]) \<and>
   map attname [demo_att ''x'' 23, demo_att ''y'' 25] = map namestrcpy [''x'', ''y'']"
proof -
  let ?p1 = "demo_plan [''x''] [demo_att ''a'' 23, demo_att ''b'' 25]"
  let ?p2 = "demo_plan [''x'', ''y''] [demo_att ''a'' 23, demo_att ''b'' 25]"
  have 1: "True \<and> length (snd (fdw_private ?p1)) \<noteq> length (fst (fdw_private ?p1))"
    by (simp add: demo_plan_def)
  have 2: "length (snd (fdw_private ?p2)) = length (fst (fdw_private ?p2))"
    by (simp add: demo_plan_def)
  from result_descriptor_matches_colnames [of True ?p1 0] 1
  have a: "BeginStreamScan True ?p1 0 = Inl AssertionFailure" by blast
  have b: "BeginStreamScan True ?p2 0 =
     Inr (demo_begun [''x'', ''y''] [demo_att ''a'' 23, demo_att ''b'' 25]
            [demo_att ''x'' 23, demo_att ''y'' 25])"
    by (simp add: BeginStreamScan_def ExecTypeFromTL_def demo_plan_def demo_begun_def
      demo_att_def demo_pinfo_def namestrcpy_def NAMEDATALEN_def Let_def)
  from result_descriptor_matches_colnames [of True ?p2 0] 2 b
  have c: "map attname [demo_att ''x'' 23, demo_att ''y'' 25] = map namestrcpy [''x'', ''y'']"
    by (auto simp: demo_plan_def demo_begun_def demo_pinfo_def)
  from 1 a 2 b c show ?thesis by (intro conjI) simp_all
qed

text \<open>
  Without assertion checking: one column name for two attributes, and the scan is
  initialized, with the first attribute renamed.
\<close>

theorem mismatched_scan_proceeds_counterexample:
  "length (snd (fdw_private (demo_plan [''x''] [demo_att ''a'' 23, demo_att ''b'' 25]))) \<noteq>
   length (fst (fdw_private (demo_plan [''x''] [demo_att ''a'' 23, demo_att ''b'' 25]))) \<and>
   BeginStreamScan False (demo_plan [''x''] [demo_att ''a'' 23, demo_att ''b'' 25]) 0 =
     Inr (demo_begun [''x''] [demo_att ''a'' 23, demo_att ''b'' 25]
            [demo_att ''x'' 23, demo_att ''b'' 25])"
  by (simp add: BeginStreamScan_def ExecTypeFromTL_def demo_plan_def demo_begun_def
      demo_att_def demo_pinfo_def namestrcpy_def NAMEDATALEN_def Let_def)

text \<open>
  C10. Rescanning an open stream scan is a no-op: for every scan node, whatever its
  projection info, cached raw descriptor, attribute map and counters, and for every
  content of the record-type cache, \<^verbatim>\<open>ReScanStreamScan\<close> leaves all of it as it was.
\<close>

theorem rescan_is_noop:
  "ReScanStreamScan node cache = (node, cache) \<and>
   fdw_state (fst (ReScanStreamScan node cache)) = fdw_state node \<and>
   ss_ScanTupleSlot (fst (ReScanStreamScan node cache)) = ss_ScanTupleSlot node"
  by (simp add: ReScanStreamScan_def)

subsection \<open>The retry loop\<close>

lemma retry_body_eq:
  "(let ntries' = n + 1;
        h1 = ipc_queue_unlock q h;
        q' = fst (get_any_worker_queue_with_lock W h1);
        h2 = snd (get_any_worker_queue_with_lock W h1);
        ok = fst (ipc_queue_push_nolock W q' sts len (ntries' = K) h2);
        h3 = snd (ipc_queue_push_nolock W q' sts len (ntries' = K) h2)
    in if ok then Some (q', h3) else f ntries' q' h3) =
   (let q' = any_worker_queue W (h @ [IPC_QUEUE_UNLOCK q]);
        ok = (n + 1 = K \<or>
              queue_has_space W (h @ [IPC_QUEUE_UNLOCK q, GET_ANY_WORKER_QUEUE_WITH_LOCK q']) q' sts len);
        h3 = h @ retry_round W K sts len n q h
    in if ok then Some (q', h3) else f (n + 1) q' h3)"
  by (simp add: Let_def get_any_worker_queue_with_lock_def ipc_queue_push_nolock_def
      ipc_queue_unlock_def retry_round_def)

lemma retry_round_props:
  "\<exists>q' ok. retry_round W K sts len n q h =
      [IPC_QUEUE_UNLOCK q, GET_ANY_WORKER_QUEUE_WITH_LOCK q',
       IPC_QUEUE_PUSH_NOLOCK q' sts len (n + 1 = K) ok]"
  by (simp add: retry_round_def Let_def)

lemma push_retry_returns:
  assumes "0 \<le> n" "n < K"
  shows "\<exists>q' evs. push_retry W K sts len n q h = Some (q', h @ evs) \<and>
           retry_trace K n q sts len evs \<and> length evs \<le> 3 * nat (K - n)"
  using assms
proof (induction "nat (K - n)" arbitrary: n q h)
  case 0
  then show ?case by simp
next
  case (Suc d)
  let ?q' = "any_worker_queue W (h @ [IPC_QUEUE_UNLOCK q])"
  let ?ok = "n + 1 = K \<or>
      queue_has_space W (h @ [IPC_QUEUE_UNLOCK q, GET_ANY_WORKER_QUEUE_WITH_LOCK ?q']) ?q' sts len"
  let ?rd = "retry_round W K sts len n q h"
  have step: "push_retry W K sts len n q h =
      (if ?ok then Some (?q', h @ ?rd) else push_retry W K sts len (n + 1) ?q' (h @ ?rd))"
    by (subst push_retry.simps, subst retry_body_eq) (simp add: Let_def)
  have rd: "?rd = [IPC_QUEUE_UNLOCK q, GET_ANY_WORKER_QUEUE_WITH_LOCK ?q',
       IPC_QUEUE_PUSH_NOLOCK ?q' sts len (n + 1 = K) ?ok]"
    by (simp add: retry_round_def Let_def)
  show ?case
  proof (cases ?ok)
    case True
    with step have "push_retry W K sts len n q h = Some (?q', h @ ?rd)" by simp
    moreover from True rd have "retry_trace K n q sts len ?rd" by simp
    moreover from Suc.prems rd have "length ?rd \<le> 3 * nat (K - n)" by simp
    ultimately show ?thesis by blast
  next
    case False
    then have nk: "n + 1 \<noteq> K" by simp
    with Suc.prems have lt: "n + 1 < K" "0 \<le> n + 1" by simp_all
    from Suc.hyps(2) have d: "d = nat (K - (n + 1))" by simp
    from Suc.hyps(1) [OF d lt(2) lt(1), of ?q' "h @ ?rd"]
    obtain q'' evs where r: "push_retry W K sts len (n + 1) ?q' (h @ ?rd) = Some (q'', (h @ ?rd) @ evs)"
      "retry_trace K (n + 1) ?q' sts len evs" "length evs \<le> 3 * nat (K - (n + 1))" by blast
    from step False r(1) have "push_retry W K sts len n q h = Some (q'', h @ (?rd @ evs))"
      by simp
    moreover from r(2) False rd have "retry_trace K n q sts len (?rd @ evs)" by simp
    moreover from r(3) lt rd have "length (?rd @ evs) \<le> 3 * nat (K - n)" by simp
    ultimately show ?thesis by blast
  qed
qed

lemma push_retry_no_batch_call:
  fixes W0 :: "'a world"
  assumes "push_retry W0 K0 sts0 len0 n0 q0 h0 = Some r0"
  shows "\<exists>evs. snd r0 = h0 @ evs \<and> (\<forall>c\<in>set evs. \<not> is_batch_call c)"
proof (rule push_retry.raw_induct
    [where P = "\<lambda>W K sts len n q h r. \<exists>evs. snd r = h @ evs \<and> (\<forall>c\<in>set evs. \<not> is_batch_call c)",
      OF _ assms])
  fix f :: "'a world \<Rightarrow> int \<Rightarrow> 'a \<Rightarrow> int \<Rightarrow> int \<Rightarrow> ipc_queue \<Rightarrow> 'a ipc_call list
              \<Rightarrow> (ipc_queue \<times> 'a ipc_call list) option"
    and W :: "'a world" and K :: int and sts :: 'a and len :: int and n :: int
    and q :: ipc_queue and h :: "'a ipc_call list" and r :: "ipc_queue \<times> 'a ipc_call list"
  assume IH: "\<And>W K sts len n q h r. f W K sts len n q h = Some r \<Longrightarrow>
      \<exists>evs. snd r = h @ evs \<and> (\<forall>c\<in>set evs. \<not> is_batch_call c)"
    and body: "(let ntries' = n + 1;
        h1 = ipc_queue_unlock q h;
        q' = fst (get_any_worker_queue_with_lock W h1);
        h2 = snd (get_any_worker_queue_with_lock W h1);
        ok = fst (ipc_queue_push_nolock W q' sts len (ntries' = K) h2);
        h3 = snd (ipc_queue_push_nolock W q' sts len (ntries' = K) h2)
      in if ok then Some (q', h3) else f W K sts len ntries' q' h3) = Some r"
  let ?q' = "any_worker_queue W (h @ [IPC_QUEUE_UNLOCK q])"
  let ?ok = "n + 1 = K \<or>
      queue_has_space W (h @ [IPC_QUEUE_UNLOCK q, GET_ANY_WORKER_QUEUE_WITH_LOCK ?q']) ?q' sts len"
  let ?rd = "retry_round W K sts len n q h"
  from body [unfolded retry_body_eq, unfolded Let_def]
  have step: "(if ?ok then Some (?q', h @ ?rd) else f W K sts len (n + 1) ?q' (h @ ?rd)) = Some r" .
  have rd: "\<forall>c\<in>set ?rd. \<not> is_batch_call c"
    by (simp add: retry_round_def Let_def)
  show "\<exists>evs. snd r = h @ evs \<and> (\<forall>c\<in>set evs. \<not> is_batch_call c)"
  proof (cases ?ok)
    case True
    with step have "snd r = h @ ?rd" by auto
    with rd show ?thesis by blast
  next
    case False
    with step have "f W K sts len (n + 1) ?q' (h @ ?rd) = Some r" by simp
    from IH [OF this] obtain evs where "snd r = (h @ ?rd) @ evs" "\<forall>c\<in>set evs. \<not> is_batch_call c"
      by blast
    with rd have "snd r = h @ (?rd @ evs) \<and> (\<forall>c\<in>set (?rd @ evs). \<not> is_batch_call c)" by auto
    then show ?thesis by blast
  qed
qed

lemma push_retry_unfold:
  "push_retry W K sts len n q h =
     (let q' = any_worker_queue W (h @ [IPC_QUEUE_UNLOCK q]);
          ok = (n + 1 = K \<or>
                queue_has_space W (h @ [IPC_QUEUE_UNLOCK q, GET_ANY_WORKER_QUEUE_WITH_LOCK q']) q' sts len);
          h3 = h @ retry_round W K sts len n q h
      in if ok then Some (q', h3) else push_retry W K sts len (n + 1) q' h3)"
  by (subst push_retry.simps, subst retry_body_eq) (rule refl)

subsection \<open>One inserted row\<close>

lemma ExecStreamInsert_no_queue:
  assumes "sis_worker_queue sis = None"
  shows "ExecStreamInsert G W sis tup h =
     (let r = tuple_state W tup (sis_desc sis) (sis_packed_desc sis) (sis_targets sis)
                (sis_ack sis) (if sis_ack sis \<noteq> None then 1 else 0)
      in Some (Inr (sis\<lparr>sis_count := sis_count sis + 1, sis_bytes := sis_bytes sis + snd r\<rparr>,
                    h @ [STREAM_TUPLE_STATE_CREATE tup (if sis_ack sis \<noteq> None then 1 else 0)
                           (fst r) (snd r)])))"
  using assms
  by (simp add: ExecStreamInsert_def StreamTupleStateCreate_def Let_def split_def)

lemma ExecStreamInsert_queue:
  assumes wq: "sis_worker_queue sis = Some q0"
    and bs: "sis_count sis = 0 \<or> continuous_query_batch_size G \<noteq> 0"
  obtains pre sis1 q1 m len where
     "\<forall>c\<in>set pre. \<not> is_push_call c \<and> \<not> is_batch_call c"
     "sis_count sis1 = sis_count sis" "sis_batch sis1 = sis_batch sis"
     "sis_flags sis1 = sis_flags sis" "sis_bytes sis1 = sis_bytes sis"
     "sis_worker_queue sis1 \<noteq> None"
     "ExecStreamInsert G W sis tup h =
       (if queue_has_space W (h @ pre) q1 m len
        then Some (Inr (sis1\<lparr>sis_count := sis_count sis1 + 1, sis_bytes := sis_bytes sis1 + len\<rparr>,
                        h @ pre @ [IPC_QUEUE_PUSH_NOLOCK q1 m len False True]))
        else (case push_retry W (continuous_query_num_workers G) m len 0 q1
                     (h @ pre @ [IPC_QUEUE_PUSH_NOLOCK q1 m len False False]) of
                None \<Rightarrow> None
              | Some (q2, h4) \<Rightarrow>
                  Some (Inr (sis1\<lparr>sis_num_batches := sis_num_batches sis1 + 1,
                                  sis_worker_queue := Some q2,
                                  sis_count := sis_count sis1 + 1,
                                  sis_bytes := sis_bytes sis1 + len\<rparr>, h4))))"
proof -
  define nacks where "nacks = (if sis_ack sis \<noteq> None then 1 else (0::int))"
  define r where "r = tuple_state W tup (sis_desc sis) (sis_packed_desc sis) (sis_targets sis)
                (sis_ack sis) nacks"
  let ?stc = "STREAM_TUPLE_STATE_CREATE tup nacks (fst r) (snd r)"
  from bs have c0: "(sis_count sis \<noteq> 0 \<and> continuous_query_batch_size G = 0) = False" by blast
  show ?thesis
  proof (cases "sis_count sis \<noteq> 0 \<and> c_rem (sis_count sis) (continuous_query_batch_size G) = 0")
    case False
    then have c1: "(sis_count sis \<noteq> 0 \<and>
        c_rem (sis_count sis) (continuous_query_batch_size G) = 0) = False" by blast
    let ?pre = "[?stc]"
    have "ExecStreamInsert G W sis tup h =
       (if queue_has_space W (h @ ?pre) q0 (fst r) (snd r)
        then Some (Inr (sis\<lparr>sis_count := sis_count sis + 1, sis_bytes := sis_bytes sis + snd r\<rparr>,
                        h @ ?pre @ [IPC_QUEUE_PUSH_NOLOCK q0 (fst r) (snd r) False True]))
        else (case push_retry W (continuous_query_num_workers G) (fst r) (snd r) 0 q0
                     (h @ ?pre @ [IPC_QUEUE_PUSH_NOLOCK q0 (fst r) (snd r) False False]) of
                None \<Rightarrow> None
              | Some (q2, h4) \<Rightarrow>
                  Some (Inr (sis\<lparr>sis_num_batches := sis_num_batches sis + 1,
                                  sis_worker_queue := Some q2,
                                  sis_count := sis_count sis + 1,
                                  sis_bytes := sis_bytes sis + snd r\<rparr>, h4))))"
      unfolding ExecStreamInsert_def nacks_def [symmetric] c0 c1 wq
      by (simp add: StreamTupleStateCreate_def ipc_queue_push_nolock_def
          Let_def split_def r_def [symmetric] cong: option.case_cong)
    moreover have "\<forall>c\<in>set ?pre. \<not> is_push_call c \<and> \<not> is_batch_call c" by simp
    moreover from wq have "sis_worker_queue sis \<noteq> None" by simp
    ultimately show ?thesis
      by (intro that [of ?pre sis q0 "fst r" "snd r"]) (assumption | rule refl)+
  next
    case True
    then have c1: "(sis_count sis \<noteq> 0 \<and>
        c_rem (sis_count sis) (continuous_query_batch_size G) = 0) = True" by blast
    let ?q' = "any_worker_queue W (h @ [?stc, IPC_QUEUE_UNLOCK q0])"
    let ?pre = "[?stc, IPC_QUEUE_UNLOCK q0, GET_ANY_WORKER_QUEUE_WITH_LOCK ?q']"
    let ?sis1 = "sis\<lparr>sis_worker_queue := Some ?q', sis_num_batches := sis_num_batches sis + 1\<rparr>"
    have "ExecStreamInsert G W sis tup h =
       (if queue_has_space W (h @ ?pre) ?q' (fst r) (snd r)
        then Some (Inr (?sis1\<lparr>sis_count := sis_count ?sis1 + 1, sis_bytes := sis_bytes ?sis1 + snd r\<rparr>,
                        h @ ?pre @ [IPC_QUEUE_PUSH_NOLOCK ?q' (fst r) (snd r) False True]))
        else (case push_retry W (continuous_query_num_workers G) (fst r) (snd r) 0 ?q'
                     (h @ ?pre @ [IPC_QUEUE_PUSH_NOLOCK ?q' (fst r) (snd r) False False]) of
                None \<Rightarrow> None
              | Some (q2, h4) \<Rightarrow>
                  Some (Inr (?sis1\<lparr>sis_num_batches := sis_num_batches ?sis1 + 1,
                                  sis_worker_queue := Some q2,
                                  sis_count := sis_count ?sis1 + 1,
                                  sis_bytes := sis_bytes ?sis1 + snd r\<rparr>, h4))))"
      unfolding ExecStreamInsert_def nacks_def [symmetric] c0 c1 wq
      by (simp add: StreamTupleStateCreate_def ipc_queue_push_nolock_def
          get_any_worker_queue_with_lock_def ipc_queue_unlock_def Let_def split_def
          r_def [symmetric] cong: option.case_cong)
    moreover have "\<forall>c\<in>set ?pre. \<not> is_push_call c \<and> \<not> is_batch_call c" by simp
    moreover have "sis_count ?sis1 = sis_count sis" "sis_batch ?sis1 = sis_batch sis"
     "sis_flags ?sis1 = sis_flags sis" "sis_bytes ?sis1 = sis_bytes sis"
     "sis_worker_queue ?sis1 \<noteq> None" by simp_all
    ultimately show ?thesis
      by (intro that [of ?pre ?sis1 ?q' "fst r" "snd r"]) assumption+
  qed
qed

lemma not_batch_not_wait: "\<not> is_batch_call c \<Longrightarrow> \<not> is_wait_call c"
  by (cases c) simp_all

lemma ExecStreamInsert_div0:
  assumes wq: "sis_worker_queue sis = Some q0"
    and z: "sis_count sis \<noteq> 0" "continuous_query_batch_size G = 0"
  shows "ExecStreamInsert G W sis tup h = Some (Inl DivisionByZero)"
proof -
  from z have c: "(sis_count sis \<noteq> 0 \<and> continuous_query_batch_size G = 0) = True" by simp
  show ?thesis
    unfolding ExecStreamInsert_def wq c by (simp add: Let_def split_def)
qed

lemma ExecStreamInsert_inv_none:
  assumes "ExecStreamInsert G W sis tup h = Some (Inr (sis', h'))"
    and None: "sis_worker_queue sis = None"
  shows "\<exists>evs. h' = h @ evs \<and> (\<forall>c\<in>set evs. \<not> is_batch_call c) \<and>
     sis_count sis' = sis_count sis + 1 \<and> sis_batch sis' = sis_batch sis \<and>
     sis_flags sis' = sis_flags sis \<and>
     (sis_worker_queue sis' = None \<longleftrightarrow> sis_worker_queue sis = None)"
proof -
  let ?n = "if sis_ack sis \<noteq> None then 1 else (0::int)"
  let ?r = "tuple_state W tup (sis_desc sis) (sis_packed_desc sis) (sis_targets sis)
                (sis_ack sis) ?n"
  from assms(1) [unfolded ExecStreamInsert_no_queue [OF None] Let_def]
  have "sis' = sis\<lparr>sis_count := sis_count sis + 1, sis_bytes := sis_bytes sis + snd ?r\<rparr>"
    "h' = h @ [STREAM_TUPLE_STATE_CREATE tup ?n (fst ?r) (snd ?r)]" by simp_all
  moreover have "\<forall>c\<in>set [STREAM_TUPLE_STATE_CREATE tup ?n (fst ?r) (snd ?r)]. \<not> is_batch_call c"
    by simp
  ultimately show ?thesis using None by (intro exI conjI) (assumption, simp_all)
qed

lemma ExecStreamInsert_inv:
  assumes run: "ExecStreamInsert G W sis tup h = Some (Inr (sis', h'))"
  shows "\<exists>evs. h' = h @ evs \<and> (\<forall>c\<in>set evs. \<not> is_batch_call c) \<and>
     sis_count sis' = sis_count sis + 1 \<and> sis_batch sis' = sis_batch sis \<and>
     sis_flags sis' = sis_flags sis \<and>
     (sis_worker_queue sis' = None \<longleftrightarrow> sis_worker_queue sis = None)"
proof (cases "sis_worker_queue sis")
  case None
  with run show ?thesis by (rule ExecStreamInsert_inv_none)
next
  case (Some q0)
  have bs: "sis_count sis = 0 \<or> continuous_query_batch_size G \<noteq> 0"
  proof (rule ccontr)
    assume "\<not> ?thesis"
    then have "sis_count sis \<noteq> 0" "continuous_query_batch_size G = 0" by simp_all
    from ExecStreamInsert_div0 [OF Some this, of W tup h] run show False by simp
  qed
  obtain pre sis1 q1 m len where
    pre: "\<forall>c\<in>set pre. \<not> is_push_call c \<and> \<not> is_batch_call c" and
    s1: "sis_count sis1 = sis_count sis" "sis_batch sis1 = sis_batch sis"
      "sis_flags sis1 = sis_flags sis" "sis_bytes sis1 = sis_bytes sis"
      "sis_worker_queue sis1 \<noteq> None" and
    ex: "ExecStreamInsert G W sis tup h =
       (if queue_has_space W (h @ pre) q1 m len
        then Some (Inr (sis1\<lparr>sis_count := sis_count sis1 + 1, sis_bytes := sis_bytes sis1 + len\<rparr>,
                        h @ pre @ [IPC_QUEUE_PUSH_NOLOCK q1 m len False True]))
        else (case push_retry W (continuous_query_num_workers G) m len 0 q1
                     (h @ pre @ [IPC_QUEUE_PUSH_NOLOCK q1 m len False False]) of
                None \<Rightarrow> None
              | Some (q2, h4) \<Rightarrow>
                  Some (Inr (sis1\<lparr>sis_num_batches := sis_num_batches sis1 + 1,
                                  sis_worker_queue := Some q2,
                                  sis_count := sis_count sis1 + 1,
                                  sis_bytes := sis_bytes sis1 + len\<rparr>, h4))))"
    by (rule ExecStreamInsert_queue [OF Some bs, where W = W and tup = tup and h = h])
  show ?thesis
  proof (cases "queue_has_space W (h @ pre) q1 m len")
    case True
    from True have "ExecStreamInsert G W sis tup h =
        Some (Inr (sis1\<lparr>sis_count := sis_count sis1 + 1, sis_bytes := sis_bytes sis1 + len\<rparr>,
                        h @ pre @ [IPC_QUEUE_PUSH_NOLOCK q1 m len False True]))"
      unfolding ex by (rule if_P)
    with run have
      eq: "sis' = sis1\<lparr>sis_count := sis_count sis1 + 1, sis_bytes := sis_bytes sis1 + len\<rparr>"
      "h' = h @ (pre @ [IPC_QUEUE_PUSH_NOLOCK q1 m len False True])" by simp_all
    from pre have nb: "\<forall>c\<in>set (pre @ [IPC_QUEUE_PUSH_NOLOCK q1 m len False True]).
        \<not> is_batch_call c" by simp
    from eq(1) s1 Some have p: "sis_count sis' = sis_count sis + 1 \<and> sis_batch sis' = sis_batch sis \<and>
     sis_flags sis' = sis_flags sis \<and>
     (sis_worker_queue sis' = None \<longleftrightarrow> sis_worker_queue sis = None)" by simp
    show ?thesis
      by (rule exI [of _ "pre @ [IPC_QUEUE_PUSH_NOLOCK q1 m len False True]"])
        (intro conjI eq(2) nb p [THEN conjunct1] p [THEN conjunct2, THEN conjunct1]
          p [THEN conjunct2, THEN conjunct2, THEN conjunct1]
          p [THEN conjunct2, THEN conjunct2, THEN conjunct2])
  next
    case False
    let ?h3 = "h @ pre @ [IPC_QUEUE_PUSH_NOLOCK q1 m len False False]"
    let ?K = "continuous_query_num_workers G"
    from False have "ExecStreamInsert G W sis tup h =
         (case push_retry W ?K m len 0 q1 ?h3 of
                None \<Rightarrow> None
              | Some (q2, h4) \<Rightarrow>
                  Some (Inr (sis1\<lparr>sis_num_batches := sis_num_batches sis1 + 1,
                                  sis_worker_queue := Some q2,
                                  sis_count := sis_count sis1 + 1,
                                  sis_bytes := sis_bytes sis1 + len\<rparr>, h4)))"
      unfolding ex by (rule if_not_P)
    note c = run [unfolded this]
    from c obtain r where r: "push_retry W ?K m len 0 q1 ?h3 = Some r"
      by (cases "push_retry W ?K m len 0 q1 ?h3") simp_all
    with c have eq: "sis' = sis1\<lparr>sis_num_batches := sis_num_batches sis1 + 1,
                          sis_worker_queue := Some (fst r),
                          sis_count := sis_count sis1 + 1,
                          sis_bytes := sis_bytes sis1 + len\<rparr>" "h' = snd r"
      by (simp_all add: split_def)
    from push_retry_no_batch_call [OF r] obtain evs where
      e: "snd r = ?h3 @ evs" "\<forall>c\<in>set evs. \<not> is_batch_call c" by blast
    from e eq(2) have h': "h' = h @ (pre @ [IPC_QUEUE_PUSH_NOLOCK q1 m len False False] @ evs)"
      by simp
    from pre e have nb: "\<forall>c\<in>set (pre @ [IPC_QUEUE_PUSH_NOLOCK q1 m len False False] @ evs).
        \<not> is_batch_call c" by auto
    from eq(1) s1 Some have p: "sis_count sis' = sis_count sis + 1 \<and> sis_batch sis' = sis_batch sis \<and>
     sis_flags sis' = sis_flags sis \<and>
     (sis_worker_queue sis' = None \<longleftrightarrow> sis_worker_queue sis = None)" by simp
    show ?thesis
      by (rule exI [of _ "pre @ [IPC_QUEUE_PUSH_NOLOCK q1 m len False False] @ evs"])
        (intro conjI h' nb p [THEN conjunct1] p [THEN conjunct2, THEN conjunct1]
          p [THEN conjunct2, THEN conjunct2, THEN conjunct1]
          p [THEN conjunct2, THEN conjunct2, THEN conjunct2])
  qed
qed

lemmas demo_ins_defs = demo_world_def demo_globals_def demo_stream_def demo_sis_def demo_att_def

lemmas demo_run_defs = insert_operation_def BeginStreamModify_def ExecStreamInsert_def
      EndStreamModify_def GetLocalStreamReaders_def get_worker_queue_with_lock_def
      get_any_worker_queue_with_lock_def StreamTupleStateCreate_def ipc_queue_push_nolock_def
      ipc_queue_unlock_def pgstat_increment_stream_insert_def InsertBatchWaitAndRemove_def
      InsertBatchCreate_def
      demo_ins_defs c_rem_def Let_def split_def push_retry_unfold retry_round_def
      ExecTypeFromTL_def

text \<open>
  C5, amended. With at least one worker, and a batch size that is not 0 once rows have been
  counted: an insert with a worker queue always returns normally. If its first push fails
  for lack of space, the calls that follow are rounds of releasing the queue, taking the
  queue that \<^verbatim>\<open>get_any_worker_queue_with_lock\<close> hands out (which may be the one just
  released), and pushing again; the push of round \<open>n\<close> carries the must-not-fail flag
  exactly when \<open>n\<close> is the number of workers, so there are at most that many rounds, and
  the last push succeeds. The row and byte counters are advanced in either case.
\<close>

theorem queue_full_retry:
  assumes wq: "sis_worker_queue sis = Some q0"
    and bs: "sis_count sis = 0 \<or> continuous_query_batch_size G \<noteq> 0"
    and K: "1 \<le> continuous_query_num_workers G"
  shows "\<exists>sis' pre q1 m len ok evs.
     ExecStreamInsert G W sis tup h =
       Some (Inr (sis', h @ pre @ IPC_QUEUE_PUSH_NOLOCK q1 m len False ok # evs)) \<and>
     (\<forall>c\<in>set pre. \<not> is_push_call c) \<and>
     ok = queue_has_space W (h @ pre) q1 m len \<and>
     (if ok then evs = []
      else retry_trace (continuous_query_num_workers G) 0 q1 m len evs \<and>
           length evs \<le> 3 * nat (continuous_query_num_workers G)) \<and>
     sis_count sis' = sis_count sis + 1 \<and> sis_bytes sis' = sis_bytes sis + len"
proof -
  obtain pre sis1 q1 m len where
    pre: "\<forall>c\<in>set pre. \<not> is_push_call c \<and> \<not> is_batch_call c" and
    s1: "sis_count sis1 = sis_count sis" "sis_batch sis1 = sis_batch sis"
      "sis_flags sis1 = sis_flags sis" "sis_bytes sis1 = sis_bytes sis"
      "sis_worker_queue sis1 \<noteq> None" and
    ex: "ExecStreamInsert G W sis tup h =
       (if queue_has_space W (h @ pre) q1 m len
        then Some (Inr (sis1\<lparr>sis_count := sis_count sis1 + 1, sis_bytes := sis_bytes sis1 + len\<rparr>,
                        h @ pre @ [IPC_QUEUE_PUSH_NOLOCK q1 m len False True]))
        else (case push_retry W (continuous_query_num_workers G) m len 0 q1
                     (h @ pre @ [IPC_QUEUE_PUSH_NOLOCK q1 m len False False]) of
                None \<Rightarrow> None
              | Some (q2, h4) \<Rightarrow>
                  Some (Inr (sis1\<lparr>sis_num_batches := sis_num_batches sis1 + 1,
                                  sis_worker_queue := Some q2,
                                  sis_count := sis_count sis1 + 1,
                                  sis_bytes := sis_bytes sis1 + len\<rparr>, h4))))"
    by (rule ExecStreamInsert_queue [OF wq bs, where W = W and tup = tup and h = h])
  let ?K = "continuous_query_num_workers G"
  show ?thesis
  proof (cases "queue_has_space W (h @ pre) q1 m len")
    case True
    with ex s1 pre show ?thesis
      by (intro exI [of _ "sis1\<lparr>sis_count := sis_count sis1 + 1, sis_bytes := sis_bytes sis1 + len\<rparr>"]
          exI [of _ pre] exI [of _ q1] exI [of _ m] exI [of _ len] exI [of _ True]
          exI [of _ "[]"]) simp
  next
    case False
    let ?h3 = "h @ pre @ [IPC_QUEUE_PUSH_NOLOCK q1 m len False False]"
    from K have "(0::int) \<le> 0" "0 < ?K" by simp_all
    from push_retry_returns [OF this, of W m len q1 ?h3]
    obtain q2 evs where r: "push_retry W ?K m len 0 q1 ?h3 = Some (q2, ?h3 @ evs)"
      "retry_trace ?K 0 q1 m len evs" "length evs \<le> 3 * nat (?K - 0)" by blast
    with ex False s1 pre show ?thesis
      by (intro exI [of _ "sis1\<lparr>sis_num_batches := sis_num_batches sis1 + 1,
                                  sis_worker_queue := Some q2,
                                  sis_count := sis_count sis1 + 1,
                                  sis_bytes := sis_bytes sis1 + len\<rparr>"]
          exI [of _ pre] exI [of _ q1] exI [of _ m] exI [of _ len] exI [of _ False]
          exI [of _ evs]) simp
  qed
qed

text \<open>Two workers, both queues full: two rounds, the second with the flag.\<close>

theorem queue_full_retry_witness:
  "sis_worker_queue (demo_sis {7} 0 0 1 None (Some 0) 0) = Some 0 \<and>
   1 \<le> continuous_query_num_workers (demo_globals False False) \<and>
   ExecStreamInsert (demo_globals False False) (demo_world (\<lambda>q. True) {7})
     (demo_sis {7} 0 0 1 None (Some 0) 0) [Some (Int64Datum 5)] [] =
   Some (Inr (demo_sis {7} 1 1 2 None (Some 1) 0,
     [STREAM_TUPLE_STATE_CREATE [Some (Int64Datum 5)] 0 [Some (Int64Datum 5)] 1,
      IPC_QUEUE_PUSH_NOLOCK 0 [Some (Int64Datum 5)] 1 False False,
      IPC_QUEUE_UNLOCK 0,
      GET_ANY_WORKER_QUEUE_WITH_LOCK 1,
      IPC_QUEUE_PUSH_NOLOCK 1 [Some (Int64Datum 5)] 1 False False,
      IPC_QUEUE_UNLOCK 1,
      GET_ANY_WORKER_QUEUE_WITH_LOCK 1,
      IPC_QUEUE_PUSH_NOLOCK 1 [Some (Int64Datum 5)] 1 True True])) \<and>
   (\<exists>sis' pre q1 m len ok evs.
     ExecStreamInsert (demo_globals False False) (demo_world (\<lambda>q. True) {7})
       (demo_sis {7} 0 0 1 None (Some 0) 0) [Some (Int64Datum 5)] [] =
       Some (Inr (sis', [] @ pre @ IPC_QUEUE_PUSH_NOLOCK q1 m len False ok # evs)) \<and>
     (\<forall>c\<in>set pre. \<not> is_push_call c) \<and>
     ok = queue_has_space (demo_world (\<lambda>q. True) {7}) ([] @ pre) q1 m len \<and>
     (if ok then evs = []
      else retry_trace (continuous_query_num_workers (demo_globals False False)) 0 q1 m len evs \<and>
           length evs \<le> 3 * nat (continuous_query_num_workers (demo_globals False False))) \<and>
     sis_count sis' = sis_count (demo_sis {7} 0 0 1 None (Some 0) 0) + 1 \<and>
     sis_bytes sis' = sis_bytes (demo_sis {7} 0 0 1 None (Some 0) 0) + len)"
proof -
  have wq: "sis_worker_queue (demo_sis {7} 0 0 1 None (Some 0) 0) = Some 0"
    by (simp add: demo_sis_def)
  have bs: "sis_count (demo_sis {7} 0 0 1 None (Some 0) 0) = 0 \<or>
      continuous_query_batch_size (demo_globals False False) \<noteq> 0"
    by (simp add: demo_sis_def)
  have K: "1 \<le> continuous_query_num_workers (demo_globals False False)"
    by (simp add: demo_globals_def)
  have run: "ExecStreamInsert (demo_globals False False) (demo_world (\<lambda>q. True) {7})
     (demo_sis {7} 0 0 1 None (Some 0) 0) [Some (Int64Datum 5)] [] =
   Some (Inr (demo_sis {7} 1 1 2 None (Some 1) 0,
     [STREAM_TUPLE_STATE_CREATE [Some (Int64Datum 5)] 0 [Some (Int64Datum 5)] 1,
      IPC_QUEUE_PUSH_NOLOCK 0 [Some (Int64Datum 5)] 1 False False,
      IPC_QUEUE_UNLOCK 0,
      GET_ANY_WORKER_QUEUE_WITH_LOCK 1,
      IPC_QUEUE_PUSH_NOLOCK 1 [Some (Int64Datum 5)] 1 False False,
      IPC_QUEUE_UNLOCK 1,
      GET_ANY_WORKER_QUEUE_WITH_LOCK 1,
      IPC_QUEUE_PUSH_NOLOCK 1 [Some (Int64Datum 5)] 1 True True]))"
    by (simp add: demo_run_defs)
  from queue_full_retry [OF wq bs K, of "demo_world (\<lambda>q. True) {7}" "[Some (Int64Datum 5)]" "[]"]
  show ?thesis using wq K run by (intro conjI)
qed

text \<open>
  One worker, its queue full: the retry releases queue 0 and takes queue 0 again, not
  another one.
\<close>

theorem retry_retakes_released_queue_counterexample:
  "sis_worker_queue (demo_sis {7} 0 0 1 None (Some 0) 0) = Some 0 \<and>
   continuous_query_num_workers demo_globals_single = 1 \<and>
   ExecStreamInsert demo_globals_single demo_world_single
     (demo_sis {7} 0 0 1 None (Some 0) 0) [Some (Int64Datum 5)] [] =
   Some (Inr (demo_sis {7} 1 1 2 None (Some 0) 0,
     [STREAM_TUPLE_STATE_CREATE [Some (Int64Datum 5)] 0 [Some (Int64Datum 5)] 1,
      IPC_QUEUE_PUSH_NOLOCK 0 [Some (Int64Datum 5)] 1 False False,
      IPC_QUEUE_UNLOCK 0,
      GET_ANY_WORKER_QUEUE_WITH_LOCK 0,
      IPC_QUEUE_PUSH_NOLOCK 0 [Some (Int64Datum 5)] 1 True True]))"
  by (simp add: ExecStreamInsert_def StreamTupleStateCreate_def ipc_queue_push_nolock_def
      demo_world_single_def demo_globals_single_def demo_sis_def demo_att_def
      c_rem_def Let_def split_def push_retry_unfold retry_round_def)

subsection \<open>One insert operation\<close>

lemma insert_rows_inv:
  assumes "insert_rows G W sis tups h = Some (Inr (sis', h'))"
  shows "\<exists>evs. h' = h @ evs \<and> (\<forall>c\<in>set evs. \<not> is_batch_call c) \<and>
     sis_count sis' = sis_count sis + int (length tups) \<and> sis_batch sis' = sis_batch sis \<and>
     sis_flags sis' = sis_flags sis \<and>
     (sis_worker_queue sis' = None \<longleftrightarrow> sis_worker_queue sis = None)"
  using assms
proof (induction tups arbitrary: sis h)
  case Nil
  then show ?case by simp
next
  case (Cons tup tups)
  from Cons.prems obtain sis1 h1 where
    a: "ExecStreamInsert G W sis tup h = Some (Inr (sis1, h1))" and
    b: "insert_rows G W sis1 tups h1 = Some (Inr (sis', h'))"
    by (cases "ExecStreamInsert G W sis tup h") (auto split: sum.splits)
  from ExecStreamInsert_inv [OF a] obtain e1 where
    1: "h1 = h @ e1" "\<forall>c\<in>set e1. \<not> is_batch_call c" "sis_count sis1 = sis_count sis + 1"
      "sis_batch sis1 = sis_batch sis" "sis_flags sis1 = sis_flags sis"
      "sis_worker_queue sis1 = None \<longleftrightarrow> sis_worker_queue sis = None"
    by (elim exE conjE)
  from Cons.IH [OF b] obtain e2 where
    2: "h' = h1 @ e2" "\<forall>c\<in>set e2. \<not> is_batch_call c"
      "sis_count sis' = sis_count sis1 + int (length tups)"
      "sis_batch sis' = sis_batch sis1" "sis_flags sis' = sis_flags sis1"
      "sis_worker_queue sis' = None \<longleftrightarrow> sis_worker_queue sis1 = None"
    by (elim exE conjE)
  from 1(1) 2(1) have h: "h' = h @ (e1 @ e2)" by simp
  from 1(2) 2(2) have nb: "\<forall>c\<in>set (e1 @ e2). \<not> is_batch_call c" by auto
  from 1 2 have p: "sis_count sis' = sis_count sis + int (length (tup # tups))"
    "sis_batch sis' = sis_batch sis" "sis_flags sis' = sis_flags sis"
    "sis_worker_queue sis' = None \<longleftrightarrow> sis_worker_queue sis = None" by simp_all
  show ?case by (rule exI [of _ "e1 @ e2"]) (intro conjI h nb p)
qed

lemma BeginStreamModify_empty:
  assumes "local_stream_readers W h (rd_id stream) = {}"
    and "\<not> (rd_inferred stream \<and> USE_ASSERT_CHECKING G \<and> (case fp of None \<Rightarrow> [] | Some tlist \<Rightarrow> tlist) = [])"
  shows "\<exists>sis. BeginStreamModify G W stream fp eflags h =
            Inr (sis, h @ [GET_LOCAL_STREAM_READERS (rd_id stream) {}]) \<and>
          sis_worker_queue sis = None \<and> sis_batch sis = None \<and> sis_ack sis = None \<and>
          sis_count sis = 0 \<and> sis_bytes sis = 0 \<and> sis_num_batches sis = 1 \<and>
          sis_targets sis = {} \<and> sis_flags sis = eflags"
  using assms
  by (simp add: BeginStreamModify_def GetLocalStreamReaders_def Let_def split_def)

lemma BeginStreamModify_props:
  assumes "BeginStreamModify G W stream fp eflags h = Inr (sis, h1)"
  shows "sis_count sis = 0 \<and> sis_flags sis = eflags \<and>
     (sis_worker_queue sis = None \<longleftrightarrow> local_stream_readers W h (rd_id stream) = {}) \<and>
     (\<exists>evs. h1 = h @ evs \<and> (\<forall>c\<in>set evs. \<not> is_wait_call c) \<and>
        (if local_stream_readers W h (rd_id stream) \<noteq> {} \<and> synchronous_stream_insert G
         then \<exists>b. sis_batch sis = Some b \<and> INSERT_BATCH_CREATE b \<in> set evs
         else sis_batch sis = None))"
proof -
  let ?t = "local_stream_readers W h (rd_id stream)"
  let ?g = "GET_LOCAL_STREAM_READERS (rd_id stream) ?t"
  show ?thesis
  proof (cases "?t = {}")
    case True
    with assms show ?thesis
      by (simp add: BeginStreamModify_def GetLocalStreamReaders_def Let_def split_def
          split: if_splits) auto
  next
    case False
    show ?thesis
    proof (cases "synchronous_stream_insert G")
      case sync: True
      from assms False sync show ?thesis
        by (simp add: BeginStreamModify_def GetLocalStreamReaders_def InsertBatchCreate_def
            get_worker_queue_with_lock_def get_any_worker_queue_with_lock_def Let_def split_def
            split: if_splits) auto
    next
      case nosync: False
      from assms False nosync show ?thesis
        by (simp add: BeginStreamModify_def GetLocalStreamReaders_def InsertBatchCreate_def
            get_worker_queue_with_lock_def get_any_worker_queue_with_lock_def Let_def split_def
            split: if_splits) auto
    qed
  qed
qed

lemma EndStreamModify_eq:
  "EndStreamModify G stream sis h =
     h @ PGSTAT_INCREMENT_STREAM_INSERT (rd_id stream) (sis_count sis) (sis_num_batches sis)
           (sis_bytes sis) #
         (case sis_worker_queue sis of
            None \<Rightarrow> []
          | Some q \<Rightarrow>
              IPC_QUEUE_UNLOCK q #
              (if sis_flags sis AND REENTRANT_STREAM_INSERT G = 0 \<and> synchronous_stream_insert G
               then [INSERT_BATCH_WAIT_AND_REMOVE (sis_batch sis) (sis_count sis)] else []))"
  by (simp add: EndStreamModify_def pgstat_increment_stream_insert_def ipc_queue_unlock_def
      InsertBatchWaitAndRemove_def Let_def split: option.splits)

lemma insert_operationE:
  assumes "insert_operation G W stream fp eflags tups h = Some (Inr (sis', h'))"
  obtains sis0 h1 h2 where
    "BeginStreamModify G W stream fp eflags h = Inr (sis0, h1)"
    "insert_rows G W sis0 tups h1 = Some (Inr (sis', h2))"
    "h' = EndStreamModify G stream sis' h2"
  using assms
  by (auto simp: insert_operation_def split: sum.splits option.splits)

lemma row_state_update [simp]:
  "row_state W (sis\<lparr>sis_count := c, sis_bytes := b\<rparr>) tup = row_state W sis tup"
  by (simp add: row_state_def)

lemma row_call_update [simp]:
  "row_call W (sis\<lparr>sis_count := c, sis_bytes := b\<rparr>) tup = row_call W sis tup"
  by (simp add: row_call_def)

lemma insert_rows_no_queue:
  assumes "sis_worker_queue sis = None"
  shows "insert_rows G W sis tups h =
     Some (Inr (sis\<lparr>sis_count := sis_count sis + int (length tups),
                     sis_bytes := sis_bytes sis + sum_list (map (\<lambda>t. snd (row_state W sis t)) tups)\<rparr>,
                h @ map (row_call W sis) tups))"
  using assms
proof (induction tups arbitrary: sis h)
  case Nil
  then show ?case by simp
next
  case (Cons tup tups)
  let ?sis1 = "sis\<lparr>sis_count := sis_count sis + 1,
                    sis_bytes := sis_bytes sis + snd (row_state W sis tup)\<rparr>"
  have a: "ExecStreamInsert G W sis tup h = Some (Inr (?sis1, h @ [row_call W sis tup]))"
    unfolding ExecStreamInsert_no_queue [OF Cons.prems]
    by (simp add: Let_def row_state_def row_call_def)
  from Cons.prems have "sis_worker_queue ?sis1 = None" by simp
  from Cons.IH [OF this, of "h @ [row_call W sis tup]"] a
  show ?case by (simp add: add.assoc)
qed

text \<open>
  C6. The code at a failing input: a combiner process of group 4 with two workers opens an
  insert and gets the queue of index \<open>4 % 2 = 0\<close>. Queue 0 is full, so the push of its row
  fails, and the retry takes whatever \<^verbatim>\<open>get_any_worker_queue_with_lock\<close> hands out, here
  queue 1: the combiner's row is pushed to queue 1.
\<close>

theorem combiner_row_leaves_its_queue:
  "insert_operation (demo_globals False True) (demo_world (\<lambda>q. q = 0) {7}) demo_stream None 0
     [[Some (Int64Datum 5)]] [] =
   Some (Inr (demo_sis {7} 1 1 2 None (Some 1) 0,
     [GET_LOCAL_STREAM_READERS 1 {7},
      GET_WORKER_QUEUE_WITH_LOCK 0 False 0,
      STREAM_TUPLE_STATE_CREATE [Some (Int64Datum 5)] 0 [Some (Int64Datum 5)] 1,
      IPC_QUEUE_PUSH_NOLOCK 0 [Some (Int64Datum 5)] 1 False False,
      IPC_QUEUE_UNLOCK 0,
      GET_ANY_WORKER_QUEUE_WITH_LOCK 1,
      IPC_QUEUE_PUSH_NOLOCK 1 [Some (Int64Datum 5)] 1 False True,
      PGSTAT_INCREMENT_STREAM_INSERT 1 1 2 1,
      IPC_QUEUE_UNLOCK 1]))"
  by (simp add: insert_operation_def BeginStreamModify_def ExecStreamInsert_def
      EndStreamModify_def GetLocalStreamReaders_def get_worker_queue_with_lock_def
      get_any_worker_queue_with_lock_def StreamTupleStateCreate_def ipc_queue_push_nolock_def
      ipc_queue_unlock_def pgstat_increment_stream_insert_def InsertBatchWaitAndRemove_def
      demo_ins_defs c_rem_def Let_def split_def push_retry_unfold retry_round_def
      ExecTypeFromTL_def)

text \<open>
  C7. When the stream has no readers at insert-open (and the assertion on the target list
  of an inferred stream holds), the insert operation returns, and all it does to the world
  is: look up the readers, serialize each row once, in order, and report the counters. No
  queue is acquired, released or pushed to, and no batch is created or waited on. The row
  counter ends at the number of rows and the byte counter at the sum of the serialized
  lengths.
\<close>

theorem no_readers_no_delivery:
  assumes empty: "local_stream_readers W h (rd_id stream) = {}"
    and tl: "\<not> (rd_inferred stream \<and> USE_ASSERT_CHECKING G \<and>
                (case fp of None \<Rightarrow> [] | Some tlist \<Rightarrow> tlist) = [])"
  shows "\<exists>sis0 sis'.
     BeginStreamModify G W stream fp eflags h =
       Inr (sis0, h @ [GET_LOCAL_STREAM_READERS (rd_id stream) {}]) \<and>
     insert_operation G W stream fp eflags tups h =
       Some (Inr (sis',
         h @ [GET_LOCAL_STREAM_READERS (rd_id stream) {}] @
             map (\<lambda>t. STREAM_TUPLE_STATE_CREATE t 0 (fst (row_state W sis0 t))
                          (snd (row_state W sis0 t))) tups @
             [PGSTAT_INCREMENT_STREAM_INSERT (rd_id stream) (int (length tups)) 1
                (sum_list (map (\<lambda>t. snd (row_state W sis0 t)) tups))])) \<and>
     sis_count sis' = int (length tups) \<and>
     sis_bytes sis' = sum_list (map (\<lambda>t. snd (row_state W sis0 t)) tups) \<and>
     sis_worker_queue sis' = None \<and> sis_batch sis' = None \<and> sis_ack sis' = None"
proof -
  let ?g = "GET_LOCAL_STREAM_READERS (rd_id stream) {}"
  from BeginStreamModify_empty [OF empty tl, of eflags] obtain sis0 where
    b: "BeginStreamModify G W stream fp eflags h = Inr (sis0, h @ [?g])" and
    s0: "sis_worker_queue sis0 = None" "sis_batch sis0 = None" "sis_ack sis0 = None"
      "sis_count sis0 = 0" "sis_bytes sis0 = 0" "sis_num_batches sis0 = 1"
    by (elim exE conjE)
  let ?bytes = "sum_list (map (\<lambda>t. snd (row_state W sis0 t)) tups)"
  let ?sis' = "sis0\<lparr>sis_count := sis_count sis0 + int (length tups),
                     sis_bytes := sis_bytes sis0 + ?bytes\<rparr>"
  have r: "insert_rows G W sis0 tups (h @ [?g]) =
      Some (Inr (?sis', (h @ [?g]) @ map (row_call W sis0) tups))"
    by (rule insert_rows_no_queue [OF s0(1)])
  from s0 have rc: "row_call W sis0 = (\<lambda>t. STREAM_TUPLE_STATE_CREATE t 0 (fst (row_state W sis0 t))
                          (snd (row_state W sis0 t)))"
    by (simp add: row_call_def fun_eq_iff)
  from s0 have e: "EndStreamModify G stream ?sis' ((h @ [?g]) @ map (row_call W sis0) tups) =
      h @ [?g] @ map (row_call W sis0) tups @
        [PGSTAT_INCREMENT_STREAM_INSERT (rd_id stream) (int (length tups)) 1 ?bytes]"
    by (simp add: EndStreamModify_eq)
  have op: "insert_operation G W stream fp eflags tups h =
      Some (Inr (?sis', h @ [?g] @ map (row_call W sis0) tups @
        [PGSTAT_INCREMENT_STREAM_INSERT (rd_id stream) (int (length tups)) 1 ?bytes]))"
    unfolding insert_operation_def b using r e by simp
  from s0 have p: "sis_count ?sis' = int (length tups)" "sis_bytes ?sis' = ?bytes"
    "sis_worker_queue ?sis' = None" "sis_batch ?sis' = None" "sis_ack ?sis' = None"
    by simp_all
  show ?thesis
    by (rule exI [of _ sis0], rule exI [of _ ?sis'])
      (intro conjI b op [unfolded rc] p)
qed

text \<open>Two rows, no readers, synchronous inserts switched on.\<close>

theorem no_readers_no_delivery_witness:
  "local_stream_readers (demo_world (\<lambda>q. False) {}) [] (rd_id demo_stream) = {} \<and>
   insert_operation (demo_globals True False) (demo_world (\<lambda>q. False) {}) demo_stream None 0
     [[Some (Int64Datum 5)], [None, Some (TextDatum ''x'')]] [] =
   Some (Inr (demo_sis {} 2 3 1 None None 0,
     [GET_LOCAL_STREAM_READERS 1 {},
      STREAM_TUPLE_STATE_CREATE [Some (Int64Datum 5)] 0 [Some (Int64Datum 5)] 1,
      STREAM_TUPLE_STATE_CREATE [None, Some (TextDatum ''x'')] 0 [None, Some (TextDatum ''x'')] 2,
      PGSTAT_INCREMENT_STREAM_INSERT 1 2 1 3]))"
proof -
  have e: "local_stream_readers (demo_world (\<lambda>q. False) {}) [] (rd_id demo_stream) = {}"
    by (simp add: demo_world_def)
  have t: "\<not> (rd_inferred demo_stream \<and> USE_ASSERT_CHECKING (demo_globals True False) \<and>
                (case None of None \<Rightarrow> [] | Some tlist \<Rightarrow> tlist) = [])"
    by (simp add: demo_stream_def)
  from no_readers_no_delivery [OF e t, of 0 "[[Some (Int64Datum 5)], [None, Some (TextDatum ''x'')]]"]
  obtain sis0 sis' where
    b: "BeginStreamModify (demo_globals True False) (demo_world (\<lambda>q. False) {}) demo_stream None 0 [] =
       Inr (sis0, [] @ [GET_LOCAL_STREAM_READERS (rd_id demo_stream) {}])" and
    r: "insert_operation (demo_globals True False) (demo_world (\<lambda>q. False) {}) demo_stream None 0
          [[Some (Int64Datum 5)], [None, Some (TextDatum ''x'')]] [] =
       Some (Inr (sis',
         [] @ [GET_LOCAL_STREAM_READERS (rd_id demo_stream) {}] @
             map (\<lambda>t. STREAM_TUPLE_STATE_CREATE t 0 (fst (row_state (demo_world (\<lambda>q. False) {}) sis0 t))
                          (snd (row_state (demo_world (\<lambda>q. False) {}) sis0 t)))
               [[Some (Int64Datum 5)], [None, Some (TextDatum ''x'')]] @
             [PGSTAT_INCREMENT_STREAM_INSERT (rd_id demo_stream)
                (int (length [[Some (Int64Datum 5)], [None, Some (TextDatum ''x'')]])) 1
                (sum_list (map (\<lambda>t. snd (row_state (demo_world (\<lambda>q. False) {}) sis0 t))
                   [[Some (Int64Datum 5)], [None, Some (TextDatum ''x'')]]))]))"
    by (elim exE conjE)
  have "insert_operation (demo_globals True False) (demo_world (\<lambda>q. False) {}) demo_stream None 0
     [[Some (Int64Datum 5)], [None, Some (TextDatum ''x'')]] [] =
   Some (Inr (demo_sis {} 2 3 1 None None 0,
     [GET_LOCAL_STREAM_READERS 1 {},
      STREAM_TUPLE_STATE_CREATE [Some (Int64Datum 5)] 0 [Some (Int64Datum 5)] 1,
      STREAM_TUPLE_STATE_CREATE [None, Some (TextDatum ''x'')] 0 [None, Some (TextDatum ''x'')] 2,
      PGSTAT_INCREMENT_STREAM_INSERT 1 2 1 3]))"
    by (simp add: demo_run_defs)
  with e r show ?thesis by (intro conjI)
qed

text \<open>
  C8. For an insert operation that returns: the blocking wait on the insert batch happens
  if and only if synchronous inserts are on, the insert is not re-entrant and the set of
  readers at insert-open was not empty, which is also when a worker queue is held. When
  it happens it is the last call, on the batch created at insert-open, with the number of
  rows inserted as the expected count; otherwise no wait occurs at all.
\<close>

theorem ack_wait_iff:
  assumes run: "insert_operation G W stream fp eflags tups h = Some (Inr (sis', h'))"
  shows "\<exists>evs. h' = h @ evs \<and>
     (sis_worker_queue sis' \<noteq> None \<longleftrightarrow> local_stream_readers W h (rd_id stream) \<noteq> {}) \<and>
     (if synchronous_stream_insert G \<and> eflags AND REENTRANT_STREAM_INSERT G = 0 \<and>
         local_stream_readers W h (rd_id stream) \<noteq> {}
      then \<exists>pre b. evs = pre @ [INSERT_BATCH_WAIT_AND_REMOVE (Some b) (int (length tups))] \<and>
             INSERT_BATCH_CREATE b \<in> set pre \<and> (\<forall>c\<in>set pre. \<not> is_wait_call c)
      else \<forall>c\<in>set evs. \<not> is_wait_call c)"
proof -
  let ?t = "local_stream_readers W h (rd_id stream)"
  from run obtain sis0 h1 h2 where
    b: "BeginStreamModify G W stream fp eflags h = Inr (sis0, h1)" and
    r: "insert_rows G W sis0 tups h1 = Some (Inr (sis', h2))" and
    e: "h' = EndStreamModify G stream sis' h2"
    by (rule insert_operationE)
  from BeginStreamModify_props [OF b] obtain e0 where
    b0: "sis_count sis0 = 0" "sis_flags sis0 = eflags"
      "sis_worker_queue sis0 = None \<longleftrightarrow> ?t = {}" and
    h1: "h1 = h @ e0" and w0: "\<forall>c\<in>set e0. \<not> is_wait_call c" and
    bt: "if ?t \<noteq> {} \<and> synchronous_stream_insert G
         then \<exists>b. sis_batch sis0 = Some b \<and> INSERT_BATCH_CREATE b \<in> set e0
         else sis_batch sis0 = None"
    by (elim exE conjE)
  from insert_rows_inv [OF r] obtain e1 where
    h2: "h2 = h1 @ e1" and w1: "\<forall>c\<in>set e1. \<not> is_batch_call c" and
    r1: "sis_count sis' = sis_count sis0 + int (length tups)" "sis_batch sis' = sis_batch sis0"
      "sis_flags sis' = sis_flags sis0"
      "sis_worker_queue sis' = None \<longleftrightarrow> sis_worker_queue sis0 = None"
    by (elim exE conjE)
  from w1 have w1': "\<forall>c\<in>set e1. \<not> is_wait_call c" by (blast dest: not_batch_not_wait)
  let ?stat = "PGSTAT_INCREMENT_STREAM_INSERT (rd_id stream) (sis_count sis')
      (sis_num_batches sis') (sis_bytes sis')"
  from b0 r1 have cnt: "sis_count sis' = int (length tups)" and fl: "sis_flags sis' = eflags"
    and wq: "sis_worker_queue sis' \<noteq> None \<longleftrightarrow> ?t \<noteq> {}" by simp_all
  show ?thesis
  proof (cases "synchronous_stream_insert G \<and> eflags AND REENTRANT_STREAM_INSERT G = 0 \<and> ?t \<noteq> {}")
    case True
    with wq obtain q where q: "sis_worker_queue sis' = Some q" by auto
    from True bt r1 obtain bb where bb: "sis_batch sis' = Some bb" "INSERT_BATCH_CREATE bb \<in> set e0"
      by auto
    let ?pre = "e0 @ e1 @ [?stat, IPC_QUEUE_UNLOCK q]"
    from e h1 h2 q True fl cnt bb
    have hh: "h' = h @ (?pre @ [INSERT_BATCH_WAIT_AND_REMOVE (Some bb) (int (length tups))])"
      by (simp add: EndStreamModify_eq)
    from w0 w1' have wp: "\<forall>c\<in>set ?pre. \<not> is_wait_call c" by auto
    from bb have bin: "INSERT_BATCH_CREATE bb \<in> set ?pre" by simp
    have ex: "\<exists>pre b. ?pre @ [INSERT_BATCH_WAIT_AND_REMOVE (Some bb) (int (length tups))] =
        pre @ [INSERT_BATCH_WAIT_AND_REMOVE (Some b) (int (length tups))] \<and>
             INSERT_BATCH_CREATE b \<in> set pre \<and> (\<forall>c\<in>set pre. \<not> is_wait_call c)"
      by (rule exI [of _ ?pre], rule exI [of _ bb]) (intro conjI refl bin wp)
    have "if synchronous_stream_insert G \<and> eflags AND REENTRANT_STREAM_INSERT G = 0 \<and>
         ?t \<noteq> {}
      then \<exists>pre b. ?pre @ [INSERT_BATCH_WAIT_AND_REMOVE (Some bb) (int (length tups))] =
             pre @ [INSERT_BATCH_WAIT_AND_REMOVE (Some b) (int (length tups))] \<and>
             INSERT_BATCH_CREATE b \<in> set pre \<and> (\<forall>c\<in>set pre. \<not> is_wait_call c)
      else \<forall>c\<in>set (?pre @ [INSERT_BATCH_WAIT_AND_REMOVE (Some bb) (int (length tups))]).
             \<not> is_wait_call c"
      unfolding if_P [OF True] by (fact ex)
    with hh wq show ?thesis
      by (intro exI [of _ "?pre @ [INSERT_BATCH_WAIT_AND_REMOVE (Some bb) (int (length tups))]"]
          conjI)
  next
    case False
    let ?evs = "e0 @ e1 @ ?stat #
         (case sis_worker_queue sis' of
            None \<Rightarrow> []
          | Some q \<Rightarrow> [IPC_QUEUE_UNLOCK q])"
    from False wq fl have "sis_worker_queue sis' = None \<or>
       \<not> (sis_flags sis' AND REENTRANT_STREAM_INSERT G = 0 \<and> synchronous_stream_insert G)"
      by auto
    with e h1 h2 have hh: "h' = h @ ?evs"
      by (auto simp add: EndStreamModify_eq split: option.splits)
    from w0 w1' have wp: "\<forall>c\<in>set ?evs. \<not> is_wait_call c" by (auto split: option.splits)
    have "if synchronous_stream_insert G \<and> eflags AND REENTRANT_STREAM_INSERT G = 0 \<and>
         ?t \<noteq> {}
      then \<exists>pre b. ?evs = pre @ [INSERT_BATCH_WAIT_AND_REMOVE (Some b) (int (length tups))] \<and>
             INSERT_BATCH_CREATE b \<in> set pre \<and> (\<forall>c\<in>set pre. \<not> is_wait_call c)
      else \<forall>c\<in>set ?evs. \<not> is_wait_call c"
      unfolding if_not_P [OF False] by (fact wp)
    with hh wq show ?thesis by (intro exI [of _ ?evs] conjI)
  qed
qed

text \<open>Two rows, one reader, synchronous inserts, not re-entrant.\<close>

theorem ack_wait_iff_witness:
  "insert_operation (demo_globals True False) (demo_world (\<lambda>q. False) {7}) demo_stream None 0
     [[Some (Int64Datum 5)], [Some (Int64Datum 6)]] [] =
   Some (Inr (demo_sis {7} 2 2 1 (Some 1) (Some 1) 0,
     [GET_LOCAL_STREAM_READERS 1 {7},
      INSERT_BATCH_CREATE 1,
      GET_ANY_WORKER_QUEUE_WITH_LOCK 1,
      STREAM_TUPLE_STATE_CREATE [Some (Int64Datum 5)] 1 [Some (Int64Datum 5)] 1,
      IPC_QUEUE_PUSH_NOLOCK 1 [Some (Int64Datum 5)] 1 False True,
      STREAM_TUPLE_STATE_CREATE [Some (Int64Datum 6)] 1 [Some (Int64Datum 6)] 1,
      IPC_QUEUE_PUSH_NOLOCK 1 [Some (Int64Datum 6)] 1 False True,
      PGSTAT_INCREMENT_STREAM_INSERT 1 2 1 2,
      IPC_QUEUE_UNLOCK 1,
      INSERT_BATCH_WAIT_AND_REMOVE (Some 1) 2])) \<and>
   synchronous_stream_insert (demo_globals True False) \<and>
   (0 :: 32 word) AND REENTRANT_STREAM_INSERT (demo_globals True False) = 0 \<and>
   local_stream_readers (demo_world (\<lambda>q. False) {7}) [] (rd_id demo_stream) \<noteq> {}"
proof -
  have run: "insert_operation (demo_globals True False) (demo_world (\<lambda>q. False) {7}) demo_stream None 0
     [[Some (Int64Datum 5)], [Some (Int64Datum 6)]] [] =
   Some (Inr (demo_sis {7} 2 2 1 (Some 1) (Some 1) 0,
     [GET_LOCAL_STREAM_READERS 1 {7},
      INSERT_BATCH_CREATE 1,
      GET_ANY_WORKER_QUEUE_WITH_LOCK 1,
      STREAM_TUPLE_STATE_CREATE [Some (Int64Datum 5)] 1 [Some (Int64Datum 5)] 1,
      IPC_QUEUE_PUSH_NOLOCK 1 [Some (Int64Datum 5)] 1 False True,
      STREAM_TUPLE_STATE_CREATE [Some (Int64Datum 6)] 1 [Some (Int64Datum 6)] 1,
      IPC_QUEUE_PUSH_NOLOCK 1 [Some (Int64Datum 6)] 1 False True,
      PGSTAT_INCREMENT_STREAM_INSERT 1 2 1 2,
      IPC_QUEUE_UNLOCK 1,
      INSERT_BATCH_WAIT_AND_REMOVE (Some 1) 2]))"
    by (simp add: demo_run_defs)
  have c: "synchronous_stream_insert (demo_globals True False)"
    "(0 :: 32 word) AND REENTRANT_STREAM_INSERT (demo_globals True False) = 0"
    "local_stream_readers (demo_world (\<lambda>q. False) {7}) [] (rd_id demo_stream) \<noteq> {}"
    by (simp_all add: demo_world_def demo_globals_def)
  from ack_wait_iff [OF run] run c show ?thesis by (intro conjI)
qed

end
